theory Spec2Isabelle
  imports Complex_Main "HOL-Library.AList"
begin

section \<open>Python runtime values used by \<open>performance_optimizer.py\<close>\<close>

text \<open>
  A Python \<open>str\<close> is a sequence of Unicode code points. A code point below 256 is
  \<open>Latin c\<close>; the code point \<open>256 + n\<close> is \<open>Wide n\<close>. \<open>latin\<close> turns a literal of the
  source into a \<open>str\<close>. Cache keys (hex digests) and the texts of exceptions are kept as
  plain strings.
\<close>

datatype codepoint = Latin char | Wide nat

type_synonym pystr = "codepoint list"

definition latin :: "string \<Rightarrow> pystr" where
  "latin s = map Latin s"

text \<open>
  The exceptions the modelled code can raise, each with the value its text is built from:
  the key for \<open>KeyError\<close> (a missing dict key) and \<open>ValueError\<close> (\<open>deque.remove\<close> of a
  key that is not there), the string for \<open>UnicodeEncodeError\<close>. Every stateful operation
  returns its outcome together with the state as the call left it, because a Python
  exception does not undo the mutations made before it was raised.
\<close>

datatype py_error =
  ZeroDivisionError | IndexError | ValueError string | KeyError string | UnicodeEncodeError pystr

subsection \<open>Floats\<close>

text \<open>
  A Python float is an IEEE double. Finite doubles are rationals, and \<open>+\<close>, \<open>-\<close>,
  \<open>*\<close>, \<open>/\<close> on them return the exact result rounded to the nearest double, ties to
  the even significand. \<open>fl\<close> is that rounding: 53 significant bits, exponent of the
  last bit at least \<open>-1074\<close> (the subnormal range). Results beyond the largest finite
  double (infinities) are outside the model; the durations, timestamps and lengths of
  this program are far from that range.
\<close>

fun bit_length :: "nat \<Rightarrow> nat" where
  "bit_length n = (if n = 0 then 0 else Suc (bit_length (n div 2)))"

declare bit_length.simps [simp del]

definition pow2 :: "int \<Rightarrow> rat" where
  "pow2 e = (if 0 \<le> e then 2 ^ nat e else 1 / 2 ^ nat (- e))"

definition round_half_even :: "rat \<Rightarrow> int" where
  "round_half_even x =
     (let f = \<lfloor>x\<rfloor>; d = x - of_int f
      in if d < 1 / 2 then f
         else if 1 / 2 < d then f + 1
         else if even f then f else f + 1)"

definition fl :: "rat \<Rightarrow> rat" where
  "fl x =
     (if x = 0 then 0
      else
        let a = \<bar>x\<bar>;
            e0 = (if 1 \<le> a then int (bit_length (nat \<lfloor>a\<rfloor>)) - 53
                  else - int (bit_length (nat \<lfloor>1 / a\<rfloor>)) - 52);
            e1 = (if 2 ^ 53 \<le> a / pow2 e0 then e0 + 1 else e0);
            e = max e1 (- 1074)
        in sgn x * of_int (round_half_even (a / pow2 e)) * pow2 e)"

text \<open>\<open>int(x)\<close> on a float truncates toward zero.\<close>

definition py_int :: "rat \<Rightarrow> int" where
  "py_int x = (if 0 \<le> x then \<lfloor>x\<rfloor> else \<lceil>x\<rceil>)"

section \<open>\<open>LRUCache\<close>\<close>

record cache_stats =
  hits :: nat
  misses :: nat
  evictions :: nat
  expired :: nat

text \<open>
  \<open>self.cache\<close> and \<open>self.timestamps\<close> are dicts, modelled as association lists in
  insertion order (\<open>len\<close> is \<open>length\<close>, \<open>d[k] = v\<close> is \<open>AList.update\<close>, \<open>del d[k]\<close>
  is \<open>AList.delete\<close>); \<open>self.access_order\<close> is a deque, a list with its left end
  first. The lock is not modelled: every operation runs as one step.
\<close>

record 'v lru_cache =
  maxsize :: int
  ttl :: int
  cache :: "(string \<times> 'v) list"
  access_order :: "string list"
  timestamps :: "(string \<times> rat) list"
  stats :: cache_stats

definition lru_init :: "int \<Rightarrow> int \<Rightarrow> 'v lru_cache" where
  "lru_init m t =
     \<lparr>maxsize = m, ttl = t, cache = [], access_order = [], timestamps = [],
      stats = \<lparr>hits = 0, misses = 0, evictions = 0, expired = 0\<rparr>\<rparr>"

definition has_key :: "('k \<times> 'a) list \<Rightarrow> 'k \<Rightarrow> bool" where
  "has_key d k = (map_of d k \<noteq> None)"

text \<open>\<open>_remove_key\<close>: \<open>del self.timestamps[key]\<close> raises KeyError on a missing key,
  after \<open>del self.cache[key]\<close> has been done.\<close>

definition remove_key :: "'v lru_cache \<Rightarrow> string \<Rightarrow> (py_error + unit) \<times> 'v lru_cache" where
  "remove_key c key =
     (if has_key (cache c) key then
        (let c1 = c\<lparr>cache := AList.delete key (cache c)\<rparr>
         in if has_key (timestamps c1) key
            then (Inr (), c1\<lparr>timestamps := AList.delete key (timestamps c1)\<rparr>)
            else (Inl (KeyError key), c1))
      else (Inr (), c))"

text \<open>\<open>get\<close>, with \<open>current_time\<close> the value \<open>time.time()\<close> returned. The result
  \<open>None\<close> is Python's \<open>None\<close>.\<close>

definition get :: "'v lru_cache \<Rightarrow> string \<Rightarrow> rat \<Rightarrow> (py_error + 'v option) \<times> 'v lru_cache" where
  "get c key current_time =
     (case map_of (cache c) key of
        Some v \<Rightarrow>
          (case map_of (timestamps c) key of
             None \<Rightarrow> (Inl (KeyError key), c)
           | Some ts \<Rightarrow>
               if fl (current_time - ts) < of_int (ttl c) then
                 (if key \<in> set (access_order c)
                  then (Inr (Some v),
                        c\<lparr>access_order := remove1 key (access_order c) @ [key],
                          stats := (stats c)\<lparr>hits := hits (stats c) + 1\<rparr>\<rparr>)
                  else (Inl (ValueError key), c))
               else
                 (case remove_key c key of
                    (Inl e, c1) \<Rightarrow> (Inl e, c1)
                  | (Inr u, c1) \<Rightarrow>
                      (Inr None,
                       c1\<lparr>stats := (stats c1)\<lparr>expired := expired (stats c1) + 1,
                                               misses := misses (stats c1) + 1\<rparr>\<rparr>)))
      | None \<Rightarrow> (Inr None, c\<lparr>stats := (stats c)\<lparr>misses := misses (stats c) + 1\<rparr>\<rparr>))"

text \<open>\<open>put\<close>: \<open>deque.remove\<close> raises ValueError when the key is not in the deque,
  \<open>deque.popleft\<close> raises IndexError on an empty deque.\<close>

definition put_prepare :: "'v lru_cache \<Rightarrow> string \<Rightarrow> (py_error + unit) \<times> 'v lru_cache" where
  "put_prepare c key =
     (if has_key (cache c) key then
        (if key \<in> set (access_order c)
         then (Inr (), c\<lparr>access_order := remove1 key (access_order c)\<rparr>)
         else (Inl (ValueError key), c))
      else if maxsize c \<le> int (length (cache c)) then
        (case access_order c of
           [] \<Rightarrow> (Inl IndexError, c)
         | oldest_key # rest \<Rightarrow>
             (case remove_key (c\<lparr>access_order := rest\<rparr>) oldest_key of
                (Inl e, c1) \<Rightarrow> (Inl e, c1)
              | (Inr u, c1) \<Rightarrow>
                  (Inr (), c1\<lparr>stats := (stats c1)\<lparr>evictions := evictions (stats c1) + 1\<rparr>\<rparr>)))
      else (Inr (), c))"

definition put :: "'v lru_cache \<Rightarrow> string \<Rightarrow> 'v \<Rightarrow> rat \<Rightarrow> (py_error + unit) \<times> 'v lru_cache" where
  "put c key val current_time =
     (case put_prepare c key of
        (Inl e, c1) \<Rightarrow> (Inl e, c1)
      | (Inr u, c1) \<Rightarrow>
          (Inr (),
           c1\<lparr>cache := AList.update key val (cache c1),
              timestamps := AList.update key current_time (timestamps c1),
              access_order := access_order c1 @ [key]\<rparr>))"

definition clear :: "'v lru_cache \<Rightarrow> 'v lru_cache" where
  "clear c = c\<lparr>cache := [], timestamps := [], access_order := []\<rparr>"

record stats_report =
  r_hits :: nat
  r_misses :: nat
  r_evictions :: nat
  r_expired :: nat
  total_requests :: nat
  hit_rate :: rat
  cache_size :: nat

definition get_stats :: "'v lru_cache \<Rightarrow> stats_report" where
  "get_stats c =
     (let total = hits (stats c) + misses (stats c)
      in \<lparr>r_hits = hits (stats c), r_misses = misses (stats c),
          r_evictions = evictions (stats c), r_expired = expired (stats c),
          total_requests = total,
          hit_rate = (if 0 < total then fl (of_nat (hits (stats c)) / of_nat total) else 0),
          cache_size = length (cache c)\<rparr>)"

subsection \<open>Vocabulary of the cache properties\<close>

text \<open>
  \<open>lru_inv\<close> is what every operation needs to run without raising; \<open>lru_synced\<close> adds
  that the access order lists exactly the keys of the mapping, each once. \<open>put_seq\<close>
  runs a list of \<open>put\<close> calls, each on the cache as the previous call left it.
\<close>

definition keys :: "('k \<times> 'a) list \<Rightarrow> 'k set" where
  "keys d = fst ` set d"

definition lru_inv :: "'v lru_cache \<Rightarrow> bool" where
  "lru_inv c =
     (distinct (map fst (cache c)) \<and> distinct (map fst (timestamps c)) \<and>
      keys (cache c) = keys (timestamps c) \<and>
      keys (cache c) \<subseteq> set (access_order c))"

definition lru_synced :: "'v lru_cache \<Rightarrow> bool" where
  "lru_synced c =
     (lru_inv c \<and> distinct (access_order c) \<and> set (access_order c) = keys (cache c))"

fun put_seq :: "'v lru_cache \<Rightarrow> (string \<times> 'v \<times> rat) list \<Rightarrow> 'v lru_cache" where
  "put_seq c [] = c"
| "put_seq c ((key, v, t) # ops) = put_seq (snd (put c key v t)) ops"

definition counters_le :: "cache_stats \<Rightarrow> cache_stats \<Rightarrow> bool" where
  "counters_le a b =
     (hits a \<le> hits b \<and> misses a \<le> misses b \<and> evictions a \<le> evictions b \<and>
      expired a \<le> expired b)"

section \<open>\<open>PerformanceMetrics\<close> and \<open>PerformanceMonitor\<close>\<close>

record performance_metrics =
  operation :: string
  duration :: rat
  memory_usage :: int
  cpu_usage :: rat
  metric_cache_hit :: bool
  timestamp :: rat
  success :: bool
  error_message :: "string option"

text \<open>\<open>deque(maxlen=n).append(x)\<close>: a full deque drops its left end.\<close>

definition deque_append :: "nat \<Rightarrow> 'a list \<Rightarrow> 'a \<Rightarrow> 'a list" where
  "deque_append n xs x = (let ys = xs @ [x] in drop (length ys - n) ys)"

text \<open>\<open>xs[i]\<close>: a negative index counts from the right end; out of range raises IndexError.\<close>

definition py_index :: "'a list \<Rightarrow> int \<Rightarrow> py_error + 'a" where
  "py_index xs i =
     (if 0 \<le> i
      then (if i < int (length xs) then Inr (xs ! nat i) else Inl IndexError)
      else (if - int (length xs) \<le> i then Inr (xs ! nat (int (length xs) + i))
            else Inl IndexError))"

text \<open>\<open>sum(xs)\<close> over floats adds from the left, starting at 0, rounding each sum
  (CPython before 3.12; later versions compensate the rounding error).\<close>

definition py_sum :: "rat list \<Rightarrow> rat" where
  "py_sum xs = foldl (\<lambda>a x. fl (a + x)) 0 xs"

datatype alert = High_response_time rat | High_memory_usage int | Operation_failed "string option"

record performance_monitor =
  metrics_history :: "performance_metrics list"

definition monitor_init :: performance_monitor where
  "monitor_init = \<lparr>metrics_history = []\<rparr>"

text \<open>\<open>_check_alerts\<close> builds the alerts of one metric (thresholds: 5.0 seconds and
  1000000000 bytes) and writes each to the log; the log is not part of the state.\<close>

definition check_alerts :: "performance_metrics \<Rightarrow> alert list" where
  "check_alerts metric =
     (if 5 < duration metric then [High_response_time (duration metric)] else []) @
     (if 1000000000 < memory_usage metric then [High_memory_usage (memory_usage metric)] else []) @
     (if \<not> success metric then [Operation_failed (error_message metric)] else [])"

definition record_metric :: "performance_monitor \<Rightarrow> performance_metrics \<Rightarrow> performance_monitor" where
  "record_metric mon metric =
     mon\<lparr>metrics_history := deque_append 10000 (metrics_history mon) metric\<rparr>"

text \<open>\<open>_percentile\<close>: \<open>percentile / 100\<close> is a float division, the product with
  \<open>len(sorted_data)\<close> a float multiplication, \<open>int\<close> truncates.\<close>

definition percentile :: "rat list \<Rightarrow> int \<Rightarrow> py_error + rat" where
  "percentile data p =
     (if data = [] then Inr 0
      else
        let sorted_data = sort data;
            index = py_int (fl (fl (of_int p / 100) * of_nat (length sorted_data)))
        in py_index sorted_data (min index (int (length sorted_data) - 1)))"

record operation_stats =
  op_count :: nat
  avg_duration :: rat
  op_success_rate :: rat

text \<open>\<open>_get_operation_breakdown\<close>: the operations in the order of their first metric.\<close>

definition get_operation_breakdown ::
  "performance_metrics list \<Rightarrow> (string \<times> operation_stats) list" where
  "get_operation_breakdown metrics =
     map (\<lambda>name.
            let op_metrics = filter (\<lambda>m. operation m = name) metrics;
                durations = map duration op_metrics
            in (name,
                \<lparr>op_count = length op_metrics,
                 avg_duration = fl (py_sum durations / of_nat (length durations)),
                 op_success_rate =
                   fl (of_nat (length (filter success op_metrics)) / of_nat (length op_metrics))\<rparr>))
         (rev (remdups (rev (map operation metrics))))"

record performance_summary =
  time_window :: int
  sum_total_requests :: nat
  successful_requests :: nat
  success_rate :: rat
  cache_hit_rate :: rat
  avg_response_time :: rat
  min_response_time :: rat
  max_response_time :: rat
  p95_response_time :: rat
  p99_response_time :: rat
  operations :: "(string \<times> operation_stats) list"

datatype summary_result = No_metrics string | Summary performance_summary

text \<open>\<open>get_performance_summary\<close>, with \<open>current_time\<close> the value of \<open>time.time()\<close>. An
  empty window is reported as a dict with the one key \<open>error\<close>, not raised.\<close>

definition get_performance_summary ::
  "performance_monitor \<Rightarrow> int \<Rightarrow> rat \<Rightarrow> py_error + summary_result" where
  "get_performance_summary mon window current_time =
     (let cutoff_time = fl (current_time - of_int window);
          recent_metrics = filter (\<lambda>m. cutoff_time \<le> timestamp m) (metrics_history mon)
      in if recent_metrics = []
         then Inr (No_metrics ''No metrics available for the specified time window'')
         else
           let response_times = map duration recent_metrics;
               cache_hits = length (filter metric_cache_hit recent_metrics);
               total = length recent_metrics;
               successful = length (filter success recent_metrics)
           in case percentile response_times 95 of
                Inl e \<Rightarrow> Inl e
              | Inr p95 \<Rightarrow>
                  (case percentile response_times 99 of
                     Inl e \<Rightarrow> Inl e
                   | Inr p99 \<Rightarrow>
                       Inr (Summary
                         \<lparr>time_window = window,
                          sum_total_requests = total,
                          successful_requests = successful,
                          success_rate = fl (of_nat successful / of_nat total),
                          cache_hit_rate = fl (of_nat cache_hits / of_nat total),
                          avg_response_time =
                            fl (py_sum response_times / of_nat (length response_times)),
                          min_response_time = Min (set response_times),
                          max_response_time = Max (set response_times),
                          p95_response_time = p95,
                          p99_response_time = p99,
                          operations = get_operation_breakdown recent_metrics\<rparr>)))"


section \<open>Python strings\<close>

text \<open>
  The \<open>str\<close> methods the optimizer calls. \<open>len\<close> is \<open>length\<close>; \<open>in\<close>, \<open>replace\<close>,
  \<open>split\<close> and \<open>join\<close> work on any list. What the model takes from the Python runtime as it
  is: the MD5 hex digest of the UTF-8 encoding of a string, \<open>lower()\<close> of a string that has
  a code point from 256 on, \<open>str\<close> of a float, \<open>str\<close> of an exception, and the order in
  which \<open>list(set(xs))\<close> lists the distinct elements of \<open>xs\<close>.
\<close>

record runtime =
  md5_hexdigest :: "pystr \<Rightarrow> string"
  unicode_lower :: "pystr \<Rightarrow> pystr"
  float_str :: "rat \<Rightarrow> string"
  exception_str :: "py_error \<Rightarrow> string"
  list_of_set :: "pystr list \<Rightarrow> pystr list"

text \<open>The clock: \<open>clk n\<close> is what the \<open>n\<close>-th call of \<open>time.time()\<close> returns. Every function
  that reads the time takes the number of calls made so far and returns the new number.\<close>

type_synonym clock = "nat \<Rightarrow> rat"

text \<open>\<open>s.encode()\<close> (UTF-8) raises UnicodeEncodeError exactly when \<open>s\<close> holds a surrogate,
  a code point from D800 to DFFF.\<close>

fun is_surrogate :: "codepoint \<Rightarrow> bool" where
  "is_surrogate (Latin c) = False"
| "is_surrogate (Wide n) = (0xD800 \<le> n + 256 \<and> n + 256 \<le> 0xDFFF)"

definition encodable :: "pystr \<Rightarrow> bool" where
  "encodable s = list_all (\<lambda>c. \<not> is_surrogate c) s"

text \<open>\<open>hashlib.md5(s.encode()).hexdigest()\<close>.\<close>

definition md5_hex :: "runtime \<Rightarrow> pystr \<Rightarrow> py_error + string" where
  "md5_hex rt s = (if encodable s then Inr (md5_hexdigest rt s) else Inl (UnicodeEncodeError s))"

text \<open>\<open>s.lower()\<close>: on Latin-1 text the capital letters A to Z and those from C0 to DE
  (but D7, the multiplication sign) move up by 32.\<close>

definition lower_char :: "char \<Rightarrow> char" where
  "lower_char c =
     (let n = (of_char c :: nat)
      in if (65 \<le> n \<and> n \<le> 90) \<or> (192 \<le> n \<and> n \<le> 222 \<and> n \<noteq> 215)
         then char_of (n + 32) else c)"

fun is_latin :: "codepoint \<Rightarrow> bool" where
  "is_latin (Latin c) = True"
| "is_latin (Wide n) = False"

fun lower_latin :: "codepoint \<Rightarrow> codepoint" where
  "lower_latin (Latin c) = Latin (lower_char c)"
| "lower_latin (Wide n) = Wide n"

definition lower :: "runtime \<Rightarrow> pystr \<Rightarrow> pystr" where
  "lower rt s = (if list_all is_latin s then map lower_latin s else unicode_lower rt s)"

text \<open>\<open>c.isspace()\<close>, which \<open>split()\<close> and \<open>strip()\<close> go by.\<close>

fun isspace :: "codepoint \<Rightarrow> bool" where
  "isspace (Latin c) =
     (let n = (of_char c :: nat)
      in (9 \<le> n \<and> n \<le> 13) \<or> (28 \<le> n \<and> n \<le> 32) \<or> n = 133 \<or> n = 160)"
| "isspace (Wide n) =
     (let u = n + 256
      in u = 0x1680 \<or> (0x2000 \<le> u \<and> u \<le> 0x200A) \<or> u = 0x2028 \<or> u = 0x2029 \<or>
         u = 0x202F \<or> u = 0x205F \<or> u = 0x3000)"

fun startswith :: "'a list \<Rightarrow> 'a list \<Rightarrow> bool" where
  "startswith s [] = True"
| "startswith [] (p # ps) = False"
| "startswith (c # cs) (p # ps) = (c = p \<and> startswith cs ps)"

text \<open>\<open>sub in s\<close>.\<close>

fun contains :: "'a list \<Rightarrow> 'a list \<Rightarrow> bool" where
  "contains sub [] = (sub = [])"
| "contains sub (c # cs) = (startswith (c # cs) sub \<or> contains sub cs)"

text \<open>\<open>s.replace(old, new)\<close>: every occurrence of \<open>old\<close>, found from the left without
  overlap. \<open>replace_from k\<close> still has \<open>k\<close> characters of a found occurrence to skip.\<close>

fun replace_from :: "nat \<Rightarrow> 'a list \<Rightarrow> 'a list \<Rightarrow> 'a list \<Rightarrow> 'a list" where
  "replace_from k old new [] = []"
| "replace_from k old new (c # cs) =
     (if 0 < k then replace_from (k - 1) old new cs
      else if startswith (c # cs) old then new @ replace_from (length old - 1) old new cs
      else c # replace_from 0 old new cs)"

definition replace :: "'a list \<Rightarrow> 'a list \<Rightarrow> 'a list \<Rightarrow> 'a list" where
  "replace s old new =
     (if old = [] then new @ concat (map (\<lambda>c. c # new) s) else replace_from 0 old new s)"

text \<open>\<open>s.split()\<close>: the maximal runs of characters that are not whitespace.\<close>

fun split_ws_from :: "pystr \<Rightarrow> pystr \<Rightarrow> pystr list" where
  "split_ws_from w [] = (if w = [] then [] else [w])"
| "split_ws_from w (c # cs) =
     (if isspace c then (if w = [] then split_ws_from [] cs else w # split_ws_from [] cs)
      else split_ws_from (w @ [c]) cs)"

definition split_ws :: "pystr \<Rightarrow> pystr list" where
  "split_ws s = split_ws_from [] s"

text \<open>\<open>s.split(sep)\<close> for a separator of one character.\<close>

fun split_on :: "'a \<Rightarrow> 'a list \<Rightarrow> 'a list list" where
  "split_on sep [] = [[]]"
| "split_on sep (c # cs) =
     (if c = sep then [] # split_on sep cs
      else (case split_on sep cs of w # ws \<Rightarrow> (c # w) # ws | [] \<Rightarrow> [[c]]))"

text \<open>\<open>sep.join(xs)\<close>.\<close>

fun join :: "'a list \<Rightarrow> 'a list list \<Rightarrow> 'a list" where
  "join sep [] = []"
| "join sep [x] = x"
| "join sep (x # y # ys) = x @ sep @ join sep (y # ys)"

definition strip :: "pystr \<Rightarrow> pystr" where
  "strip s = rev (dropWhile isspace (rev (dropWhile isspace s)))"


section \<open>\<open>PromptOptimizer\<close>\<close>

text \<open>The metrics dict of \<open>optimize_prompt\<close>; two keys carry a prefix because the
  pipeline's result has keys of the same name.\<close>

record prompt_metrics =
  original_length :: nat
  optimized_length :: nat
  compression_ratio :: rat
  optimization_time :: rat
  prompt_optimizations_applied :: "string list"
  metrics_domain :: pystr

record prompt_result =
  optimized_prompt :: pystr
  pr_metrics :: prompt_metrics

record prompt_optimizer =
  optimization_cache :: "prompt_result lru_cache"
  performance_history :: "performance_metrics list"

definition prompt_optimizer_init :: prompt_optimizer where
  "prompt_optimizer_init =
     \<lparr>optimization_cache = lru_init 500 7200, performance_history = []\<rparr>"

definition redundant_phrases :: "string list" where
  "redundant_phrases =
     [''please'', ''could you'', ''would you mind'', ''if possible'',
      ''I need you to'', ''can you help me'', ''I would like'']"

definition filler_words :: "string list" where
  "filler_words =
     [''actually'', ''basically'', ''essentially'', ''literally'',
      ''obviously'', ''definitely'', ''certainly'']"

definition verbose_patterns :: "(string \<times> string) list" where
  "verbose_patterns =
     [(''in order to'', ''to''),
      (''due to the fact that'', ''because''),
      (''at this point in time'', ''now''),
      (''in the event that'', ''if''),
      (''for the purpose of'', ''for'')]"

text \<open>The three loops of \<open>optimize_prompt\<close>; each carries \<open>optimized\<close> and
  \<open>optimizations_applied\<close>. The test reads the lowered text, the replacement the text
  itself. The phrases and the tags built from them are literals of the source.\<close>

definition remove_redundant ::
  "runtime \<Rightarrow> pystr \<times> string list \<Rightarrow> string \<Rightarrow> pystr \<times> string list" where
  "remove_redundant rt st phrase =
     (case st of (optimized, applied) \<Rightarrow>
        if contains (latin phrase) (lower rt optimized)
        then (replace optimized (latin phrase) [], applied @ [''removed_redundant: '' @ phrase])
        else (optimized, applied))"

definition remove_filler ::
  "runtime \<Rightarrow> pystr \<times> string list \<Rightarrow> string \<Rightarrow> pystr \<times> string list" where
  "remove_filler rt st word =
     (case st of (optimized, applied) \<Rightarrow>
        let pattern = latin ('' '' @ word @ '' '')
        in if contains pattern (lower rt optimized)
           then (replace optimized pattern (latin '' ''), applied @ [''removed_filler: '' @ word])
           else (optimized, applied))"

definition simplify_verbose ::
  "runtime \<Rightarrow> pystr \<times> string list \<Rightarrow> string \<times> string \<Rightarrow> pystr \<times> string list" where
  "simplify_verbose rt st pat =
     (case st of (optimized, applied) \<Rightarrow>
        case pat of (verbose, concise) \<Rightarrow>
          if contains (latin verbose) (lower rt optimized)
          then (replace optimized (latin verbose) (latin concise),
                applied @ [''simplified: '' @ verbose @ '' -> '' @ concise])
          else (optimized, applied))"

definition newline2 :: pystr where
  "newline2 = latin [CHR 0x0A, CHR 0x0A]"

definition optimize_devops_prompt :: "runtime \<Rightarrow> pystr \<Rightarrow> pystr" where
  "optimize_devops_prompt rt prompt =
     (let p1 = (if contains (latin ''analyze'') (lower rt prompt) \<and> \<not> contains (latin ''json'') (lower rt prompt)
                then prompt @ newline2 @
                  latin ''Provide response in structured JSON format with clear sections for analysis, recommendations, and implementation steps.''
                else prompt)
      in if contains (latin ''recommend'') (lower rt p1)
         then p1 @ newline2 @
           latin ''Focus on actionable, production-ready solutions with specific commands and configurations.''
         else p1)"

definition optimize_sre_prompt :: "runtime \<Rightarrow> pystr \<Rightarrow> pystr" where
  "optimize_sre_prompt rt prompt =
     (let p1 = (if contains (latin ''incident'') (lower rt prompt) \<or> contains (latin ''outage'') (lower rt prompt)
                then prompt @ newline2 @
                  latin ''Include SLO impact analysis and error budget implications in your response.''
                else prompt)
      in if contains (latin ''performance'') (lower rt p1)
         then p1 @ newline2 @
           latin ''Provide quantitative metrics and measurable targets in your analysis.''
         else p1)"

definition optimize_cloud_prompt :: "runtime \<Rightarrow> pystr \<Rightarrow> pystr" where
  "optimize_cloud_prompt rt prompt =
     (let p1 = (if contains (latin ''architecture'') (lower rt prompt) \<or> contains (latin ''design'') (lower rt prompt)
                then prompt @ newline2 @
                  latin ''Include cost implications and optimization opportunities in your recommendations.''
                else prompt)
      in if contains (latin ''migration'') (lower rt p1) \<or> contains (latin ''deployment'') (lower rt p1)
         then p1 @ newline2 @
           latin ''Address security, compliance, and governance considerations.''
         else p1)"

definition optimize_platform_prompt :: "runtime \<Rightarrow> pystr \<Rightarrow> pystr" where
  "optimize_platform_prompt rt prompt =
     (let p1 = (if contains (latin ''platform'') (lower rt prompt) \<or> contains (latin ''developer'') (lower rt prompt)
                then prompt @ newline2 @
                  latin ''Prioritize developer experience and productivity in your recommendations.''
                else prompt)
      in if contains (latin ''tool'') (lower rt p1) \<or> contains (latin ''service'') (lower rt p1)
         then p1 @ newline2 @
           latin ''Focus on self-service capabilities and automation opportunities.''
         else p1)"

definition apply_domain ::
  "runtime \<Rightarrow> pystr \<Rightarrow> pystr \<times> string list \<Rightarrow> pystr \<times> string list" where
  "apply_domain rt domain st =
     (case st of (optimized, applied) \<Rightarrow>
        if domain = latin ''devops''
        then (optimize_devops_prompt rt optimized, applied @ [''applied_devops_optimizations''])
        else if domain = latin ''sre''
        then (optimize_sre_prompt rt optimized, applied @ [''applied_sre_optimizations''])
        else if domain = latin ''cloud''
        then (optimize_cloud_prompt rt optimized, applied @ [''applied_cloud_optimizations''])
        else if domain = latin ''platform''
        then (optimize_platform_prompt rt optimized, applied @ [''applied_platform_optimizations''])
        else (optimized, applied))"

text \<open>The text rewriting of \<open>optimize_prompt\<close> (lines 153 to 190): the optimized prompt
  and the tags.\<close>

definition rewrite_prompt :: "runtime \<Rightarrow> pystr \<Rightarrow> pystr \<Rightarrow> pystr \<times> string list" where
  "rewrite_prompt rt prompt domain =
     (let st1 = foldl (remove_redundant rt) (prompt, []) redundant_phrases;
          st2 = foldl (remove_filler rt) st1 filler_words;
          st3 = foldl (simplify_verbose rt) st2 verbose_patterns;
          st4 = apply_domain rt domain st3
      in (join (latin '' '') (split_ws (fst st4)), snd st4))"

text \<open>
  \<open>optimize_prompt\<close>. The cache key is derived first and raises on a prompt or domain
  that cannot be encoded. A cached result is a dict with two keys, so \<open>if cached_result\<close>
  holds exactly when the lookup returned one. \<open>optimized_length / original_length\<close> is a
  float division and raises ZeroDivisionError for an empty prompt.
\<close>

definition optimize_prompt ::
  "runtime \<Rightarrow> clock \<Rightarrow> prompt_optimizer \<Rightarrow> nat \<Rightarrow> pystr \<Rightarrow> pystr \<Rightarrow>
   (py_error + pystr \<times> prompt_metrics) \<times> prompt_optimizer \<times> nat" where
  "optimize_prompt rt clk po n prompt domain =
     (case md5_hex rt (prompt @ latin '':'' @ domain) of
        Inl e \<Rightarrow> (Inl e, po, n)
      | Inr cache_key \<Rightarrow>
         (case get (optimization_cache po) cache_key (clk n) of
           (Inl e, c1) \<Rightarrow> (Inl e, po\<lparr>optimization_cache := c1\<rparr>, n + 1)
         | (Inr (Some cached_result), c1) \<Rightarrow>
             (Inr (optimized_prompt cached_result, pr_metrics cached_result),
              po\<lparr>optimization_cache := c1\<rparr>, n + 1)
         | (Inr None, c1) \<Rightarrow>
             (let start_time = clk (n + 1);
                  olen = length prompt;
                  rw = rewrite_prompt rt prompt domain;
                  optimized = fst rw;
                  opt_time = fl (clk (n + 2) - start_time);
                  nlen = length optimized
              in if olen = 0
                 then (Inl ZeroDivisionError, po\<lparr>optimization_cache := c1\<rparr>, n + 3)
                 else
                   let m = \<lparr>original_length = olen,
                            optimized_length = nlen,
                            compression_ratio = fl (1 - fl (of_nat nlen / of_nat olen)),
                            optimization_time = opt_time,
                            prompt_optimizations_applied = snd rw,
                            metrics_domain = domain\<rparr>;
                       res = \<lparr>optimized_prompt = optimized, pr_metrics = m\<rparr>
                   in case put c1 cache_key res (clk (n + 3)) of
                        (Inl e, c2) \<Rightarrow> (Inl e, po\<lparr>optimization_cache := c2\<rparr>, n + 4)
                      | (Inr u, c2) \<Rightarrow>
                          (Inr (optimized, m),
                           po\<lparr>optimization_cache := c2,
                              performance_history :=
                                deque_append 1000 (performance_history po)
                                  \<lparr>operation = ''prompt_optimization'',
                                   duration = opt_time, memory_usage = 0, cpu_usage = 0,
                                   metric_cache_hit = False, timestamp = clk (n + 4),
                                   success = True, error_message = None\<rparr>\<rparr>,
                           n + 5))))"


section \<open>\<open>ContextCompressor\<close>\<close>

record compression_metrics =
  context_original_length :: nat
  compressed_length :: nat
  reduction_ratio :: rat
  target_reduction :: rat
  compression_time :: rat
  key_phrases_count :: nat
  structured_info_categories :: nat

record compression_result =
  compressed :: pystr
  cr_metrics :: compression_metrics

record context_compressor =
  compression_cache :: "compression_result lru_cache"

definition context_compressor_init :: context_compressor where
  "context_compressor_init = \<lparr>compression_cache = lru_init 200 1800\<rparr>"

definition important_indicators :: "string list" where
  "important_indicators =
     [''error'', ''critical'', ''high'', ''urgent'', ''failed'', ''down'',
      ''performance'', ''latency'', ''throughput'', ''availability'',
      ''security'', ''vulnerability'', ''breach'', ''compliance'',
      ''cost'', ''optimization'', ''scaling'', ''capacity'']"

definition contains_any :: "string list \<Rightarrow> pystr \<Rightarrow> bool" where
  "contains_any subs s = list_ex (\<lambda>sub. contains (latin sub) s) subs"

definition extract_key_phrases :: "runtime \<Rightarrow> pystr \<Rightarrow> pystr list" where
  "extract_key_phrases rt text =
     take 15
       (filter (\<lambda>sentence. contains_any important_indicators (lower rt sentence) \<and>
                            length sentence < 200)
          (map strip (split_on (Latin CHR ''.'') text)))"

text \<open>\<open>_extract_structured_info\<close>: the four lists, in the order of the dict's keys
  (services, metrics, errors, recommendations).\<close>

record structured_info =
  services :: "pystr list"
  info_metrics :: "pystr list"
  errors :: "pystr list"
  recommendations :: "pystr list"

definition classify_line :: "runtime \<Rightarrow> structured_info \<Rightarrow> pystr \<Rightarrow> structured_info" where
  "classify_line rt st raw_line =
     (let line = strip raw_line
      in if line = [] then st
         else
           st\<lparr>services := services st @
                 (if contains (latin ''service'') (lower rt line)
                  then filter (\<lambda>word. contains (latin ''service'') (lower rt word) \<and> 7 < length word)
                         (split_ws line)
                  else []),
              info_metrics := info_metrics st @
                 (if contains_any [''cpu'', ''memory'', ''disk'', ''network'', ''latency''] (lower rt line)
                  then [line] else []),
              errors := errors st @
                 (if contains_any [''error'', ''failed'', ''exception'', ''timeout''] (lower rt line)
                  then [line] else []),
              recommendations := recommendations st @
                 (if startswith line (latin ''-'') \<or> startswith line (latin ''*'') \<or>
                     contains (latin ''recommend'') (lower rt line)
                  then [line] else [])\<rparr>)"

definition extract_structured_info :: "runtime \<Rightarrow> pystr \<Rightarrow> structured_info" where
  "extract_structured_info rt text =
     (let st = foldl (classify_line rt)
                 \<lparr>services = [], info_metrics = [], errors = [], recommendations = []\<rparr>
                 (split_on (Latin CHR 0x0A) text)
      in \<lparr>services = take 5 (list_of_set rt (services st)),
          info_metrics = take 5 (list_of_set rt (info_metrics st)),
          errors = take 5 (list_of_set rt (errors st)),
          recommendations = take 5 (list_of_set rt (recommendations st))\<rparr>)"

definition aggressive_compress :: "pystr \<Rightarrow> pystr" where
  "aggressive_compress text =
     join [Latin CHR 0x0A]
       (filter (\<lambda>line. 10 < length (strip line))
          (map (\<lambda>line. replace (replace (replace line (latin ''in order to'') (latin ''to''))
                                   (latin ''due to the fact that'') (latin ''because''))
                          (latin ''at this point in time'') (latin ''now''))
             (split_on (Latin CHR 0x0A) text)))"

definition category_line :: "string \<Rightarrow> pystr list \<Rightarrow> pystr list" where
  "category_line category items =
     (if items = [] then []
      else [latin (''- '' @ category @ '': '') @ join (latin '', '') (take 3 items)])"

text \<open>The text built on lines 377 to 392. The dict of the four categories is never
  empty, so the header line is always there.\<close>

definition build_compressed :: "structured_info \<Rightarrow> pystr list \<Rightarrow> pystr" where
  "build_compressed info key_phrases =
     join [Latin CHR 0x0A]
       ([latin ''Key Information:''] @
        category_line ''services'' (services info) @
        category_line ''metrics'' (info_metrics info) @
        category_line ''errors'' (errors info) @
        category_line ''recommendations'' (recommendations info) @
        (if key_phrases = [] then []
         else [latin (CHR 0x0A # ''Important Details:'')] @
              map (\<lambda>phrase. latin ''- '' @ phrase) (take 10 key_phrases)))"

text \<open>\<open>compress_context\<close>. The cache key is derived first and raises on a context that
  cannot be encoded; the division by \<open>original_length\<close> raises for an empty context.\<close>

definition compress_context ::
  "runtime \<Rightarrow> clock \<Rightarrow> context_compressor \<Rightarrow> nat \<Rightarrow> pystr \<Rightarrow> rat \<Rightarrow>
   (py_error + pystr \<times> compression_metrics) \<times> context_compressor \<times> nat" where
  "compress_context rt clk cc n context target =
     (case md5_hex rt (context @ latin ('':'' @ float_str rt target)) of
        Inl e \<Rightarrow> (Inl e, cc, n)
      | Inr cache_key \<Rightarrow>
         (case get (compression_cache cc) cache_key (clk n) of
           (Inl e, c1) \<Rightarrow> (Inl e, cc\<lparr>compression_cache := c1\<rparr>, n + 1)
         | (Inr (Some cached_result), c1) \<Rightarrow>
             (Inr (compressed cached_result, cr_metrics cached_result),
              cc\<lparr>compression_cache := c1\<rparr>, n + 1)
         | (Inr None, c1) \<Rightarrow>
             (let start_time = clk (n + 1);
                  olen = length context;
                  key_phrases = extract_key_phrases rt context;
                  info = extract_structured_info rt context;
                  first_pass = build_compressed info key_phrases
              in if olen = 0
                 then (Inl ZeroDivisionError, cc\<lparr>compression_cache := c1\<rparr>, n + 2)
                 else
                   let current_reduction = fl (1 - fl (of_nat (length first_pass) / of_nat olen));
                       final = (if current_reduction < target
                                then aggressive_compress first_pass else first_pass);
                       ctime = fl (clk (n + 2) - start_time);
                       m = \<lparr>context_original_length = olen,
                            compressed_length = length final,
                            reduction_ratio = fl (1 - fl (of_nat (length final) / of_nat olen)),
                            target_reduction = target,
                            compression_time = ctime,
                            key_phrases_count = length key_phrases,
                            structured_info_categories = 4\<rparr>;
                       res = \<lparr>compressed = final, cr_metrics = m\<rparr>
                   in case put c1 cache_key res (clk (n + 3)) of
                        (Inl e, c2) \<Rightarrow> (Inl e, cc\<lparr>compression_cache := c2\<rparr>, n + 4)
                      | (Inr u, c2) \<Rightarrow> (Inr (final, m), cc\<lparr>compression_cache := c2\<rparr>, n + 4))))"


section \<open>\<open>CursorAIOptimizer\<close>\<close>

text \<open>
  The optimizer owns a prompt optimizer, a context compressor, a monitor and the global
  response cache. (Its response streamer and parallel processor hold only constants and
  executors and are not used by the functions modelled here.)
\<close>

record cursor_ai_optimizer =
  prompt_optimizer :: prompt_optimizer
  context_compressor :: context_compressor
  performance_monitor :: performance_monitor
  global_cache :: "pystr lru_cache"

definition optimizer_init :: cursor_ai_optimizer where
  "optimizer_init =
     \<lparr>prompt_optimizer = prompt_optimizer_init,
      context_compressor = context_compressor_init,
      performance_monitor = monitor_init,
      global_cache = lru_init 2000 7200\<rparr>"

text \<open>The dicts \<open>optimize_request\<close> returns. A key that a dict may lack is an option;
  \<open>req_cache_key = None\<close> is the key \<open>cache_key\<close> holding Python's \<open>None\<close>.\<close>

record optimized_request =
  req_prompt :: pystr
  req_context :: pystr
  req_domain :: pystr
  req_cache_key :: "string option"

record optimization_results =
  original_prompt_length :: "nat option"
  original_context_length :: "nat option"
  optimizations_applied :: "string list option"
  prompt_optimization :: "prompt_metrics option"
  context_compression :: "compression_metrics option"
  results_cache_hit :: "bool option"
  final_prompt_length :: "nat option"
  final_context_length :: "nat option"
  results_optimization_time :: "rat option"
  error :: "string option"

record pipeline_result =
  response :: "pystr option"
  optimized_request :: "optimized_request option"
  optimization_results :: optimization_results
  processing_time :: rat
  cache_hit :: bool

definition request_metric :: "rat \<Rightarrow> bool \<Rightarrow> rat \<Rightarrow> bool \<Rightarrow> string option \<Rightarrow> performance_metrics" where
  "request_metric d hit ts ok msg =
     \<lparr>operation = ''optimize_request'', duration = d, memory_usage = 0, cpu_usage = 0,
      metric_cache_hit = hit, timestamp = ts, success = ok, error_message = msg\<rparr>"

text \<open>The literal \<open>0.3\<close>, the default of \<open>target_reduction\<close>.\<close>

definition default_target_reduction :: rat where
  "default_target_reduction = fl (3 / 10)"

text \<open>
  Step 3 and 4 of the \<open>try\<close> block, from the derivation of the cache key on: \<open>context\<close>
  is the local variable as it is bound at that point. A raise carries the exception and
  that binding, which is what the \<open>except\<close> block reads.
\<close>

definition lookup_and_finish ::
  "runtime \<Rightarrow> clock \<Rightarrow> cursor_ai_optimizer \<Rightarrow> nat \<Rightarrow> rat \<Rightarrow> optimization_results \<Rightarrow>
   pystr \<Rightarrow> pystr \<Rightarrow> pystr \<Rightarrow>
   (py_error \<times> pystr + pipeline_result) \<times> cursor_ai_optimizer \<times> nat" where
  "lookup_and_finish rt clk s n start_time results optimized context domain =
     (case md5_hex rt (optimized @ latin '':'' @ context @ latin '':'' @ domain) of
        Inl e \<Rightarrow> (Inl (e, context), s, n)
      | Inr cache_key \<Rightarrow>
         case get (global_cache s) cache_key (clk n) of
           (Inl e, g1) \<Rightarrow> (Inl (e, context), s\<lparr>global_cache := g1\<rparr>, n + 1)
         | (Inr cached_response, g1) \<Rightarrow>
             (case (if cached_response = Some [] then None else cached_response) of
                Some resp \<Rightarrow>
                  (let total_time = fl (clk (n + 1) - start_time)
                   in (Inr \<lparr>response = Some resp,
                            optimized_request = None,
                            optimization_results =
                              results\<lparr>results_cache_hit := Some True,
                                      optimizations_applied :=
                                        map_option (\<lambda>l. l @ [''cache_hit''])
                                          (optimizations_applied results)\<rparr>,
                            processing_time = total_time,
                            cache_hit = True\<rparr>,
                       s\<lparr>global_cache := g1,
                         performance_monitor :=
                           record_metric (performance_monitor s)
                             (request_metric total_time True (clk (n + 2)) True None)\<rparr>,
                       n + 3))
              | None \<Rightarrow>
                  (let total_time = fl (clk (n + 1) - start_time)
                   in (Inr \<lparr>response = None,
                            optimized_request =
                              Some \<lparr>req_prompt = optimized, req_context = context,
                                    req_domain = domain, req_cache_key = Some cache_key\<rparr>,
                            optimization_results =
                              results\<lparr>results_cache_hit := Some False,
                                      final_prompt_length := Some (length optimized),
                                      final_context_length := Some (length context),
                                      results_optimization_time := Some total_time\<rparr>,
                            processing_time = total_time,
                            cache_hit = False\<rparr>,
                       s\<lparr>global_cache := g1,
                         performance_monitor :=
                           record_metric (performance_monitor s)
                             (request_metric total_time False (clk (n + 2)) True None)\<rparr>,
                       n + 3))))"

text \<open>The \<open>try\<close> block of \<open>optimize_request\<close>. \<open>n\<close> counts the clock readings made before
  it, \<open>start_time\<close> is the first reading of the call.\<close>

definition optimize_request_try ::
  "runtime \<Rightarrow> clock \<Rightarrow> cursor_ai_optimizer \<Rightarrow> nat \<Rightarrow> rat \<Rightarrow> pystr \<Rightarrow> pystr \<Rightarrow> pystr \<Rightarrow>
   bool \<Rightarrow> (py_error \<times> pystr + pipeline_result) \<times> cursor_ai_optimizer \<times> nat" where
  "optimize_request_try rt clk s n start_time prompt context domain enable_compression =
     (let results0 = \<lparr>original_prompt_length = Some (length prompt),
                      original_context_length = Some (length context),
                      optimizations_applied = Some [],
                      prompt_optimization = None, context_compression = None,
                      results_cache_hit = None, final_prompt_length = None,
                      final_context_length = None, results_optimization_time = None,
                      error = None\<rparr>
      in case optimize_prompt rt clk (prompt_optimizer s) n prompt domain of
           (Inl e, po1, n1) \<Rightarrow> (Inl (e, context), s\<lparr>prompt_optimizer := po1\<rparr>, n1)
         | (Inr (optimized, pm), po1, n1) \<Rightarrow>
             (let s1 = s\<lparr>prompt_optimizer := po1\<rparr>;
                  results1 = results0\<lparr>prompt_optimization := Some pm,
                                      optimizations_applied := Some [''prompt_optimization'']\<rparr>
              in if enable_compression \<and> 5000 < length context then
                   (case compress_context rt clk (context_compressor s1) n1 context
                           default_target_reduction of
                      (Inl e, cc1, n2) \<Rightarrow> (Inl (e, context), s1\<lparr>context_compressor := cc1\<rparr>, n2)
                    | (Inr (compressed_context, cm), cc1, n2) \<Rightarrow>
                        lookup_and_finish rt clk (s1\<lparr>context_compressor := cc1\<rparr>) n2 start_time
                          (results1\<lparr>context_compression := Some cm,
                                    optimizations_applied :=
                                      Some [''prompt_optimization'', ''context_compression'']\<rparr>)
                          optimized compressed_context domain)
                 else lookup_and_finish rt clk s1 n1 start_time results1 optimized context domain))"

text \<open>\<open>optimize_request\<close>: the \<open>try\<close> block and the \<open>except Exception\<close> block, which records a
  failed metric and returns the request as the local variables hold it; the text of the
  exception is \<open>str(e)\<close>. \<open>enable_streaming\<close> is accepted and not read.\<close>

definition optimize_request ::
  "runtime \<Rightarrow> clock \<Rightarrow> cursor_ai_optimizer \<Rightarrow> nat \<Rightarrow> pystr \<Rightarrow> pystr \<Rightarrow> pystr \<Rightarrow>
   bool \<Rightarrow> bool \<Rightarrow> pipeline_result \<times> cursor_ai_optimizer \<times> nat" where
  "optimize_request rt clk s n prompt context domain enable_streaming enable_compression =
     (let start_time = clk n
      in case optimize_request_try rt clk s (n + 1) start_time prompt context domain
                enable_compression of
           (Inr res, s1, n1) \<Rightarrow> (res, s1, n1)
         | (Inl (e, context_now), s1, n1) \<Rightarrow>
             (\<lparr>response = None,
               optimized_request =
                 Some \<lparr>req_prompt = prompt, req_context = context_now,
                       req_domain = domain, req_cache_key = None\<rparr>,
               optimization_results =
                 \<lparr>original_prompt_length = None, original_context_length = None,
                  optimizations_applied = None, prompt_optimization = None,
                  context_compression = None, results_cache_hit = None,
                  final_prompt_length = None, final_context_length = None,
                  results_optimization_time = None,
                  error = Some (exception_str rt e)\<rparr>,
               processing_time = fl (clk (n1 + 2) - start_time),
               cache_hit = False\<rparr>,
              s1\<lparr>performance_monitor :=
                   record_metric (performance_monitor s1)
                     (request_metric (fl (clk n1 - start_time)) False (clk (n1 + 1)) False
                        (Some (exception_str rt e)))\<rparr>,
              n1 + 3))"

definition cache_response ::
  "cursor_ai_optimizer \<Rightarrow> string \<Rightarrow> pystr \<Rightarrow> rat \<Rightarrow> (py_error + unit) \<times> cursor_ai_optimizer" where
  "cache_response s cache_key resp current_time =
     (if cache_key = [] then (Inr (), s)
      else case put (global_cache s) cache_key resp current_time of
             (r, g1) \<Rightarrow> (r, s\<lparr>global_cache := g1\<rparr>))"

definition cleanup_resources :: "cursor_ai_optimizer \<Rightarrow> cursor_ai_optimizer" where
  "cleanup_resources s =
     s\<lparr>global_cache := clear (global_cache s),
       prompt_optimizer :=
         (prompt_optimizer s)\<lparr>optimization_cache := clear (optimization_cache (prompt_optimizer s))\<rparr>,
       context_compressor :=
         (context_compressor s)\<lparr>compression_cache := clear (compression_cache (context_compressor s))\<rparr>\<rparr>"


subsection \<open>Vocabulary of the pipeline properties\<close>

text \<open>\<open>no_compression_tag\<close>: the tag \<open>context_compression\<close> is not in the result's list
  of applied optimizations (the fallback result has no such list). \<open>sample_runtime\<close> and
  \<open>sample_clock\<close> are a concrete runtime and clock for evaluating examples.\<close>

definition no_compression_tag :: "pipeline_result \<Rightarrow> bool" where
  "no_compression_tag res =
     (case optimizations_applied (optimization_results res) of
        None \<Rightarrow> True
      | Some tags \<Rightarrow> ''context_compression'' \<notin> set tags)"

definition sample_runtime :: runtime where
  "sample_runtime =
     \<lparr>md5_hexdigest = (\<lambda>s. ''digest''), unicode_lower = (\<lambda>s. s), float_str = (\<lambda>x. ''0.3''),
      exception_str = (\<lambda>e. ''error''), list_of_set = remdups\<rparr>"

definition sample_clock :: clock where
  "sample_clock k = of_nat k"

text \<open>\<open>runtime_ok\<close>: converting a set to a list gives each element once, which is all
  the model assumes of Python's set iteration order. \<open>encodable\<close> strings are those that
  \<open>.encode()\<close> accepts; \<open>all_encodable\<close> and \<open>info_ok\<close> lift this to lists and to the
  dictionary of extracted lines. \<open>prompt_cache_ok\<close> and \<open>compression_cache_ok\<close> say that
  every cached text is encodable, and \<open>optimizer_inv\<close> adds the invariant of the global
  cache.\<close>

definition runtime_ok :: "runtime \<Rightarrow> bool" where
  "runtime_ok rt = (\<forall>xs. set (list_of_set rt xs) = set xs \<and> distinct (list_of_set rt xs))"

definition all_encodable :: "pystr list \<Rightarrow> bool" where
  "all_encodable xs = list_all encodable xs"

definition info_ok :: "structured_info \<Rightarrow> bool" where
  "info_ok info =
     (all_encodable (services info) \<and> all_encodable (info_metrics info) \<and>
      all_encodable (errors info) \<and> all_encodable (recommendations info))"

definition prompt_cache_ok :: "prompt_optimizer \<Rightarrow> bool" where
  "prompt_cache_ok po =
     list_all (\<lambda>kv. encodable (optimized_prompt (snd kv))) (cache (optimization_cache po))"

definition compression_cache_ok :: "context_compressor \<Rightarrow> bool" where
  "compression_cache_ok cc =
     list_all (\<lambda>kv. encodable (compressed (snd kv))) (cache (compression_cache cc))"

definition optimizer_inv :: "cursor_ai_optimizer \<Rightarrow> bool" where
  "optimizer_inv s =
     (lru_inv (global_cache s) \<and> prompt_cache_ok (prompt_optimizer s) \<and>
      compression_cache_ok (context_compressor s))"

text \<open>\<open>compressed_text\<close> and \<open>metrics_of_compression\<close> name the text and the metrics that
  \<open>compress_context\<close> computes on a cache miss.\<close>

definition compressed_text :: "runtime \<Rightarrow> pystr \<Rightarrow> rat \<Rightarrow> pystr" where
  "compressed_text rt context target =
     (let first_pass = build_compressed (extract_structured_info rt context)
                         (extract_key_phrases rt context)
      in if fl (1 - fl (of_nat (length first_pass) / of_nat (length context))) < target
         then aggressive_compress first_pass else first_pass)"

definition metrics_of_compression :: "runtime \<Rightarrow> clock \<Rightarrow> nat \<Rightarrow> pystr \<Rightarrow> rat \<Rightarrow> compression_metrics" where
  "metrics_of_compression rt clk n context target =
     \<lparr>context_original_length = length context,
      compressed_length = length (compressed_text rt context target),
      reduction_ratio =
        fl (1 - fl (of_nat (length (compressed_text rt context target)) / of_nat (length context))),
      target_reduction = target,
      compression_time = fl (clk (n + 2) - clk (n + 1)),
      key_phrases_count = length (extract_key_phrases rt context),
      structured_info_categories = 4\<rparr>"

text \<open>\<open>reachable\<close>: the states of a \<open>CursorAIOptimizer\<close> that its own code produces. The
  constructor gives the first one; \<open>optimize_request\<close>, \<open>cache_response\<close> and
  \<open>cleanup_resources\<close> are its methods that change the state, and \<open>performance_decorator\<close>
  records metrics in the monitor of the module's instance. Arguments, clock and reading
  counter are arbitrary at every step.\<close>

inductive reachable :: "runtime \<Rightarrow> cursor_ai_optimizer \<Rightarrow> bool" for rt :: runtime where
  constructed: "reachable rt optimizer_init"
| requested: "reachable rt s \<Longrightarrow>
    reachable rt (fst (snd (optimize_request rt clk s n prompt context domain
                              enable_streaming enable_compression)))"
| responded: "reachable rt s \<Longrightarrow> reachable rt (snd (cache_response s cache_key resp now))"
| cleaned: "reachable rt s \<Longrightarrow> reachable rt (cleanup_resources s)"
| recorded: "reachable rt s \<Longrightarrow>
    reachable rt (s\<lparr>performance_monitor := record_metric (performance_monitor s) metric\<rparr>)"

section \<open>Properties of \<open>LRUCache\<close>\<close>

subsection \<open>Key sets of the dictionaries\<close>

lemma lru_invD:
  assumes "lru_inv c"
  shows "distinct (map fst (cache c))" and "distinct (map fst (timestamps c))"
    and "keys (cache c) = keys (timestamps c)"
    and "keys (cache c) \<subseteq> set (access_order c)"
  using assms unfolding lru_inv_def by blast+

lemma has_key_iff: "has_key d k \<longleftrightarrow> k \<in> keys d"
  by (simp add: has_key_def keys_def map_of_eq_None_iff)

lemma keys_Nil: "keys [] = {}"
  by (simp add: keys_def)

lemma keys_delete: "keys (AList.delete k d) = keys d - {k}"
  by (induction d) (auto simp: keys_def)

lemma keys_update: "keys (AList.update k v d) = insert k (keys d)"
  by (simp add: keys_def dom_update)

lemma delete_absent: "k \<notin> keys d \<Longrightarrow> AList.delete k d = d"
  by (simp add: keys_def delete_id)

lemma length_delete_key:
  "distinct (map fst d) \<Longrightarrow> k \<in> keys d \<Longrightarrow> Suc (length (AList.delete k d)) = length d"
  by (induction d) (auto simp: keys_def delete_id image_iff)

lemma length_update_key:
  "length (AList.update k v d) = (if k \<in> keys d then length d else Suc (length d))"
  by (induction d) (auto simp: keys_def)

lemma card_keys: "distinct (map fst d) \<Longrightarrow> card (keys d) = length d"
  by (simp add: keys_def distinct_card flip: set_map)

lemma insert_remove1: "insert k (set (remove1 k xs)) = insert k (set xs)"
  by (induction xs) auto

lemma lru_init_synced: "lru_synced (lru_init m t)"
  by (simp add: lru_synced_def lru_inv_def lru_init_def keys_Nil)

lemma clear_synced: "lru_synced (clear c)"
  by (simp add: clear_def lru_synced_def lru_inv_def keys_Nil)

lemma remove_key_ok:
  assumes "keys (cache c) = keys (timestamps c)"
  shows "remove_key c key =
           (Inr (), c\<lparr>cache := AList.delete key (cache c),
                      timestamps := AList.delete key (timestamps c)\<rparr>)"
proof (cases "has_key (cache c) key")
  case True
  with assms have "has_key (timestamps c) key" by (simp add: has_key_iff)
  with True show ?thesis by (simp add: remove_key_def)
next
  case False
  with assms have "key \<notin> keys (timestamps c)" "key \<notin> keys (cache c)"
    by (simp_all add: has_key_iff)
  then show ?thesis using False by (simp add: remove_key_def delete_absent)
qed

lemma put_result:
  assumes "lru_inv c"
  shows "put c key v t =
    (if key \<in> keys (cache c) then
       (Inr (), c\<lparr>cache := AList.update key v (cache c),
                  access_order := remove1 key (access_order c) @ [key],
                  timestamps := AList.update key t (timestamps c)\<rparr>)
     else if maxsize c \<le> int (length (cache c)) then
       (case access_order c of
          [] \<Rightarrow> (Inl IndexError, c)
        | oldest # rest \<Rightarrow>
            (Inr (), c\<lparr>cache := AList.update key v (AList.delete oldest (cache c)),
                       access_order := rest @ [key],
                       timestamps := AList.update key t (AList.delete oldest (timestamps c)),
                       stats := (stats c)\<lparr>evictions := evictions (stats c) + 1\<rparr>\<rparr>))
     else
       (Inr (), c\<lparr>cache := AList.update key v (cache c),
                  access_order := access_order c @ [key],
                  timestamps := AList.update key t (timestamps c)\<rparr>))"
proof -
  note eq = lru_invD(3) [OF assms] and sub = lru_invD(4) [OF assms]
  show ?thesis
  proof (cases "key \<in> keys (cache c)")
    case True
    with sub have "key \<in> set (access_order c)" by blast
    with True show ?thesis
      by (simp add: put_def put_prepare_def has_key_iff)
  next
    case False
    show ?thesis
    proof (cases "access_order c")
      case Nil
      with False show ?thesis
        by (simp add: put_def put_prepare_def has_key_iff)
    next
      case (Cons oldest rest)
      have "remove_key (c\<lparr>access_order := rest\<rparr>) oldest =
              (Inr (), c\<lparr>access_order := rest,
                         cache := AList.delete oldest (cache c),
                         timestamps := AList.delete oldest (timestamps c)\<rparr>)"
        using remove_key_ok [of "c\<lparr>access_order := rest\<rparr>" oldest] eq by simp
      with False Cons show ?thesis
        by (simp add: put_def put_prepare_def has_key_iff)
    qed
  qed
qed

lemma put_inv:
  assumes "lru_inv c"
  shows "lru_inv (snd (put c key v t))"
proof -
  note d1 = lru_invD(1) [OF assms] and d2 = lru_invD(2) [OF assms]
    and eq = lru_invD(3) [OF assms] and sub = lru_invD(4) [OF assms]
  have r: "set (access_order c) \<subseteq> insert key (set (remove1 key (access_order c)))"
    using insert_remove1 [of key "access_order c"] by blast
  show ?thesis
  proof (cases "access_order c")
    case Nil
    with d1 d2 eq sub show ?thesis
      by (auto simp: put_result [OF assms] lru_inv_def keys_update keys_delete
          distinct_update distinct_delete)
  next
    case (Cons oldest rest)
    with d1 d2 eq sub r show ?thesis
      by (auto simp: put_result [OF assms] lru_inv_def keys_update keys_delete
          distinct_update distinct_delete)
  qed
qed

lemma get_result:
  assumes "lru_inv c"
  shows "get c key t =
    (case map_of (cache c) key of
       None \<Rightarrow> (Inr None, c\<lparr>stats := (stats c)\<lparr>misses := misses (stats c) + 1\<rparr>\<rparr>)
     | Some v \<Rightarrow>
         if fl (t - the (map_of (timestamps c) key)) < of_int (ttl c) then
           (Inr (Some v),
            c\<lparr>access_order := remove1 key (access_order c) @ [key],
              stats := (stats c)\<lparr>hits := hits (stats c) + 1\<rparr>\<rparr>)
         else
           (Inr None,
            c\<lparr>cache := AList.delete key (cache c),
              timestamps := AList.delete key (timestamps c),
              stats := (stats c)\<lparr>expired := expired (stats c) + 1,
                                  misses := misses (stats c) + 1\<rparr>\<rparr>))"
proof -
  note eq = lru_invD(3) [OF assms] and sub = lru_invD(4) [OF assms]
  show ?thesis
  proof (cases "map_of (cache c) key")
    case None
    then show ?thesis by (simp add: get_def)
  next
    case (Some v)
    then have k: "key \<in> keys (cache c)"
      using has_key_iff [of "cache c" key] by (simp add: has_key_def)
    with sub have ao: "key \<in> set (access_order c)" by blast
    from k eq have "has_key (timestamps c) key" by (simp add: has_key_iff)
    then obtain ts where ts: "map_of (timestamps c) key = Some ts"
      by (auto simp: has_key_def)
    from Some ts ao show ?thesis
      by (simp add: get_def remove_key_ok [OF eq])
  qed
qed

lemma get_inv:
  assumes "lru_inv c"
  shows "lru_inv (snd (get c key t))"
proof -
  note d1 = lru_invD(1) [OF assms] and d2 = lru_invD(2) [OF assms]
    and eq = lru_invD(3) [OF assms] and sub = lru_invD(4) [OF assms]
  have r: "set (access_order c) \<subseteq> insert key (set (remove1 key (access_order c)))"
    using insert_remove1 [of key "access_order c"] by blast
  from d1 d2 eq sub r show ?thesis
    by (auto simp: get_result [OF assms] lru_inv_def keys_delete distinct_delete
        split: option.splits)
qed

lemma get_no_error: "lru_inv c \<Longrightarrow> \<exists>r. fst (get c key t) = Inr r"
  by (simp add: get_result split: option.splits)


lemma lru_syncedD:
  assumes "lru_synced c"
  shows "lru_inv c" and "distinct (access_order c)" and "set (access_order c) = keys (cache c)"
  using assms unfolding lru_synced_def by blast+

lemma put_synced:
  assumes "lru_synced c"
  shows "lru_synced (snd (put c key v t))"
proof -
  note inv = lru_syncedD(1) [OF assms] and d = lru_syncedD(2) [OF assms]
    and s = lru_syncedD(3) [OF assms]
  have i: "lru_inv (snd (put c key v t))" by (rule put_inv [OF inv])
  show ?thesis
  proof (cases "access_order c")
    case Nil
    with d s show ?thesis
      unfolding lru_synced_def using i
      by (auto simp: put_result [OF inv] keys_update)
  next
    case (Cons oldest rest)
    with d s show ?thesis
      unfolding lru_synced_def using i
      by (auto simp: put_result [OF inv] keys_update keys_delete)
  qed
qed

lemma put_maxsize: "maxsize (snd (put c key v t)) = maxsize c"
  by (simp add: put_def put_prepare_def remove_key_def Let_def
      split: list.splits prod.splits sum.splits)

lemma put_size:
  assumes "lru_synced c" and "int (length (cache c)) \<le> maxsize c"
  shows "int (length (cache (snd (put c key v t)))) \<le> maxsize c"
proof -
  note inv = lru_syncedD(1) [OF assms(1)] and s = lru_syncedD(3) [OF assms(1)]
  note d1 = lru_invD(1) [OF inv]
  show ?thesis
  proof (cases "access_order c")
    case Nil
    with assms(2) show ?thesis
      by (simp add: put_result [OF inv] length_update_key)
  next
    case (Cons oldest rest)
    with s have "oldest \<in> keys (cache c)" by auto
    then have "Suc (length (AList.delete oldest (cache c))) = length (cache c)"
      by (rule length_delete_key [OF d1])
    with Cons assms(2) show ?thesis
      by (auto simp: put_result [OF inv] length_update_key keys_delete)
  qed
qed

lemma put_seq_invariant:
  "lru_synced c \<Longrightarrow> int (length (cache c)) \<le> maxsize c \<Longrightarrow>
   lru_synced (put_seq c ops) \<and> int (length (cache (put_seq c ops))) \<le> maxsize c \<and>
   maxsize (put_seq c ops) = maxsize c"
proof (induction ops arbitrary: c)
  case Nil
  then show ?case by simp
next
  case (Cons op ops)
  obtain key v t where op: "op = (key, v, t)" by (cases op) auto
  let ?c1 = "snd (put c key v t)"
  have "lru_synced ?c1" by (rule put_synced [OF Cons.prems(1)])
  moreover have "int (length (cache ?c1)) \<le> maxsize ?c1"
    using put_size [OF Cons.prems] by (simp add: put_maxsize)
  ultimately show ?case
    using Cons.IH [of ?c1] by (simp add: op put_maxsize)
qed

text \<open>
  A \<open>get\<close> keeps the access order in step with the mapping when the key is absent or
  its entry is still fresh; the expired branch is the one that does not.
\<close>

lemma map_of_Some_keys: "map_of d k = Some v \<Longrightarrow> k \<in> keys d"
  using has_key_iff [of d k] by (simp add: has_key_def)

lemma get_synced_unless_expired:
  assumes "lru_synced c"
    and "\<not> has_key (cache c) key \<or> fl (now - the (map_of (timestamps c) key)) < of_int (ttl c)"
  shows "lru_synced (snd (get c key now))"
proof -
  note inv = lru_syncedD(1) [OF assms(1)] and d = lru_syncedD(2) [OF assms(1)]
    and s = lru_syncedD(3) [OF assms(1)]
  have i: "lru_inv (snd (get c key now))" by (rule get_inv [OF inv])
  show ?thesis
  proof (cases "map_of (cache c) key")
    case None
    with d s i show ?thesis
      by (simp add: lru_synced_def get_result [OF inv])
  next
    case (Some v)
    then have k: "key \<in> keys (cache c)" by (rule map_of_Some_keys)
    from Some assms(2) have fresh: "fl (now - the (map_of (timestamps c) key)) < of_int (ttl c)"
      by (simp add: has_key_def)
    from d have "distinct (remove1 key (access_order c) @ [key])" by simp
    moreover from d k s have "set (remove1 key (access_order c) @ [key]) = keys (cache c)"
      by auto
    ultimately show ?thesis
      using Some fresh i by (simp add: lru_synced_def get_result [OF inv])
  qed
qed

subsection \<open>Claims about the cache\<close>

text \<open>
  Claim C2 (the mapping and the access-order sequence stay in step; a \<open>get\<close> that
  finds an expired entry removes the entry and its access-order node). The code does not
  do this: the expired branch of \<open>get\<close> calls \<open>_remove_key\<close>, which deletes from
  \<open>cache\<close> and \<open>timestamps\<close> only. With \<open>maxsize = 1\<close> and \<open>ttl = 10\<close>:
  after \<open>put(a, 1)\<close> at time 0, \<open>get(a)\<close> at time 10 is a miss that leaves the mapping
  empty and the access order \<open>[a]\<close>; \<open>put(b, 2)\<close> and \<open>put(c, 3)\<close> then leave two
  entries in a cache of capacity one, because the eviction pops the stale node \<open>a\<close>.
\<close>

theorem expired_get_leaves_access_order_node:
  "fst (get (snd (put (lru_init 1 10) ''a'' (1::int) 0)) ''a'' 10) = Inr None \<and>
   cache (snd (get (snd (put (lru_init 1 10) ''a'' (1::int) 0)) ''a'' 10)) = [] \<and>
   access_order (snd (get (snd (put (lru_init 1 10) ''a'' (1::int) 0)) ''a'' 10)) = [''a''] \<and>
   cache (snd (put (snd (put (snd (get (snd (put (lru_init 1 10) ''a'' (1::int) 0)) ''a'' 10))
            ''b'' 2 11)) ''c'' 3 12)) = [(''b'', 2), (''c'', 3)] \<and>
   access_order (snd (put (snd (put (snd (get (snd (put (lru_init 1 10) ''a'' (1::int) 0)) ''a'' 10))
            ''b'' 2 11)) ''c'' 3 12)) = [''b'', ''c'']"
  by code_simp

text \<open>
  Claim C6: from a fresh cache of capacity \<open>m \<ge> 0\<close>, after any sequence of \<open>put\<close>
  calls (hence after each call of the sequence) the number of entries is at most \<open>m\<close>;
  and a \<open>put\<close> of a new key into a full cache first evicts the key at the left end of
  the access order. A \<open>put\<close> that raises (capacity 0: \<open>popleft\<close> on the empty deque)
  leaves the cache as it was, and the sequence goes on from there.
\<close>

theorem put_only_never_exceeds_maxsize:
  assumes "0 \<le> m"
  shows "int (length (cache (put_seq (lru_init m t) ops))) \<le> m \<and>
         (\<forall>key v now. let c = put_seq (lru_init m t) ops in
            \<not> has_key (cache c) key \<and> int (length (cache c)) = m \<and> 0 < m \<longrightarrow>
              (\<exists>oldest rest. access_order c = oldest # rest \<and>
                 fst (put c key v now) = Inr () \<and>
                 cache (snd (put c key v now)) =
                   AList.update key v (AList.delete oldest (cache c)) \<and>
                 access_order (snd (put c key v now)) = rest @ [key] \<and>
                 \<not> has_key (cache (snd (put c key v now))) oldest \<and>
                 length (cache (snd (put c key v now))) = length (cache c)))"
proof -
  let ?c = "put_seq (lru_init m t) ops"
  have init: "int (length (cache (lru_init m t :: 'a lru_cache))) \<le> maxsize (lru_init m t :: 'a lru_cache)"
    using assms by (simp add: lru_init_def)
  have m: "maxsize (lru_init m t :: 'a lru_cache) = m" by (simp add: lru_init_def)
  note I = put_seq_invariant [OF lru_init_synced init, of ops, unfolded m]
  then have syn: "lru_synced ?c" and bound: "int (length (cache ?c)) \<le> m"
    and ms: "maxsize ?c = m" by blast+
  note inv = lru_syncedD(1) [OF syn] and d = lru_syncedD(2) [OF syn]
    and s = lru_syncedD(3) [OF syn]
  note d1 = lru_invD(1) [OF inv]
  have evict: "\<exists>oldest rest. access_order ?c = oldest # rest \<and>
                 fst (put ?c key v now) = Inr () \<and>
                 cache (snd (put ?c key v now)) =
                   AList.update key v (AList.delete oldest (cache ?c)) \<and>
                 access_order (snd (put ?c key v now)) = rest @ [key] \<and>
                 \<not> has_key (cache (snd (put ?c key v now))) oldest \<and>
                 length (cache (snd (put ?c key v now))) = length (cache ?c)"
    if new: "\<not> has_key (cache ?c) key" and full: "int (length (cache ?c)) = m" and pos: "0 < m"
    for key v now
  proof -
    from full pos have "cache ?c \<noteq> []" by auto
    then have "keys (cache ?c) \<noteq> {}" by (simp add: keys_def)
    with s obtain oldest rest where ao: "access_order ?c = oldest # rest"
      by (cases "access_order ?c") auto
    with s have old: "oldest \<in> keys (cache ?c)" by auto
    then have len: "Suc (length (AList.delete oldest (cache ?c))) = length (cache ?c)"
      by (rule length_delete_key [OF d1])
    from new have nk: "key \<notin> keys (cache ?c)" by (simp add: has_key_iff)
    with old have ne: "oldest \<noteq> key" by auto
    from nk ao full ms len ne show ?thesis
      by (simp add: put_result [OF inv] has_key_iff keys_update keys_delete length_update_key)
  qed
  from bound evict show ?thesis by (simp add: Let_def)
qed

theorem put_only_never_exceeds_maxsize_witness:
  "(0::int) \<le> 2 \<and>
   int (length (cache (put_seq (lru_init 2 3600)
       [(''a'', 1::int, 0), (''b'', 2, 1), (''c'', 3, 2)]))) \<le> 2 \<and>
   cache (snd (put (put_seq (lru_init 2 3600) [(''a'', 1::int, 0), (''b'', 2, 1)]) ''c'' 3 2))
     = [(''b'', 2), (''c'', 3)]"
proof -
  define c :: "int lru_cache"
    where "c = put_seq (lru_init 2 3600) [(''a'', 1::int, 0), (''b'', 2, 1)]"
  have h: "(0::int) \<le> 2" by simp
  have a: "access_order c = [''a'', ''b'']" unfolding c_def by code_simp
  have b: "cache c = [(''a'', 1), (''b'', 2)]" unfolding c_def by code_simp
  have pre: "\<not> has_key (cache c) ''c'' \<and> int (length (cache c)) = 2 \<and> (0::int) < 2"
    unfolding b by (simp add: has_key_def)
  from put_only_never_exceeds_maxsize [OF h, of 3600 "[(''a'', 1::int, 0), (''b'', 2, 1), (''c'', 3, 2)]"]
  have 1: "int (length (cache (put_seq (lru_init 2 3600)
       [(''a'', 1::int, 0), (''b'', 2, 1), (''c'', 3, 2)]))) \<le> 2" by blast
  from put_only_never_exceeds_maxsize [OF h, of 3600 "[(''a'', 1::int, 0), (''b'', 2, 1)]",
      folded c_def, unfolded Let_def] pre
  obtain oldest rest where o: "access_order c = oldest # rest"
    and r: "cache (snd (put c ''c'' 3 2)) = AList.update ''c'' 3 (AList.delete oldest (cache c))"
    by blast
  from o a have "oldest = ''a''" by simp
  with r have "cache (snd (put c ''c'' 3 2)) = [(''b'', 2), (''c'', 3)]"
    unfolding b by simp
  with h 1 show ?thesis unfolding c_def by blast
qed

lemma fl_6: "fl 6 = 6"
  by code_simp

lemma reput_scenario:
  assumes "1 \<le> m"
  shows "get (snd (put (snd (put (lru_init m 10) k (1::int) 0)) k 2 9)) k 15 =
    (Inr (Some 2),
     \<lparr>maxsize = m, ttl = 10, cache = [(k, 2)], access_order = [k], timestamps = [(k, 9)],
      stats = \<lparr>hits = 1, misses = 0, evictions = 0, expired = 0\<rparr>\<rparr>)"
  using assms
  by (simp add: put_def put_prepare_def get_def lru_init_def has_key_def fl_6)

text \<open>
  Claim C7: a \<open>put\<close> of a key that is already present overwrites the value and the
  timestamp whatever they were (no eviction, same number of entries); with \<open>ttl = 10\<close>,
  \<open>put(k, 1)\<close> at time 0, \<open>put(k, 2)\<close> at time 9 and \<open>get(k)\<close> at time 15 give a hit
  with value 2, and nothing is counted as expired.
\<close>

theorem reput_refreshes_ttl:
  assumes "lru_inv c" and "has_key (cache c) key" and "1 \<le> m"
  shows "(fst (put c key v now) = Inr () \<and>
          map_of (cache (snd (put c key v now))) key = Some v \<and>
          map_of (timestamps (snd (put c key v now))) key = Some now \<and>
          length (cache (snd (put c key v now))) = length (cache c) \<and>
          stats (snd (put c key v now)) = stats c) \<and>
         fst (get (snd (put (snd (put (lru_init m 10) k (1::int) 0)) k 2 9)) k 15) = Inr (Some 2) \<and>
         hits (stats (snd (get (snd (put (snd (put (lru_init m 10) k (1::int) 0)) k 2 9)) k 15))) = 1 \<and>
         expired (stats (snd (get (snd (put (snd (put (lru_init m 10) k (1::int) 0)) k 2 9)) k 15))) = 0"
proof -
  from assms(2) have k: "key \<in> keys (cache c)" by (simp add: has_key_iff)
  then have "fst (put c key v now) = Inr () \<and>
         map_of (cache (snd (put c key v now))) key = Some v \<and>
         map_of (timestamps (snd (put c key v now))) key = Some now \<and>
         length (cache (snd (put c key v now))) = length (cache c) \<and>
         stats (snd (put c key v now)) = stats c"
    by (simp add: put_result [OF assms(1)] update_conv' length_update_key)
  then show ?thesis by (simp add: reput_scenario [OF assms(3)])
qed

theorem reput_refreshes_ttl_witness:
  "lru_inv (snd (put (lru_init 1000 10) ''k'' (1::int) 0)) \<and>
   has_key (cache (snd (put (lru_init 1000 10) ''k'' (1::int) 0))) ''k'' \<and>
   map_of (cache (snd (put (snd (put (lru_init 1000 10) ''k'' (1::int) 0)) ''k'' 2 9))) ''k'' = Some 2 \<and>
   map_of (timestamps (snd (put (snd (put (lru_init 1000 10) ''k'' (1::int) 0)) ''k'' 2 9))) ''k'' = Some 9 \<and>
   fst (get (snd (put (snd (put (lru_init 1000 10) ''k'' (1::int) 0)) ''k'' 2 9)) ''k'' 15) = Inr (Some 2)"
proof -
  have i: "lru_inv (snd (put (lru_init 1000 10) ''k'' (1::int) 0))"
    by (rule put_inv) (rule lru_syncedD(1) [OF lru_init_synced])
  have h: "has_key (cache (snd (put (lru_init 1000 10) ''k'' (1::int) 0))) ''k''"
    by code_simp
  have m: "(1::int) \<le> 1000" by simp
  from reput_refreshes_ttl [OF i h m, of 2 9 "''k''"] i h show ?thesis by blast
qed

text \<open>
  Claim C8: on a cache with \<open>maxsize = 2\<close>, \<open>put(a, 1); put(b, 2); put(c, 3)\<close> with
  distinct keys evicts \<open>a\<close>: afterwards \<open>get(a)\<close> is a miss, \<open>get(b)\<close> returns 2 and
  \<open>get(c)\<close> returns 3 (the two hits read while the entries are younger than the TTL).
\<close>

theorem lru_eviction_example:
  assumes "a \<noteq> b" and "a \<noteq> c" and "b \<noteq> c"
    and "fl (t5 - t2) < of_int life" and "fl (t6 - t3) < of_int life"
  shows "let s3 = snd (put (snd (put (snd (put (lru_init 2 life) a (1::int) t1)) b 2 t2)) c 3 t3);
             s4 = snd (get s3 a t4); s5 = snd (get s4 b t5)
         in cache s3 = [(b, 2), (c, 3)] \<and> evictions (stats s3) = 1 \<and>
            fst (get s3 a t4) = Inr None \<and>
            fst (get s4 b t5) = Inr (Some 2) \<and>
            fst (get s5 c t6) = Inr (Some 3)"
  using assms
  by (simp add: put_def put_prepare_def get_def remove_key_def lru_init_def has_key_def Let_def)

theorem lru_eviction_example_witness:
  "''a'' \<noteq> ''b'' \<and> ''a'' \<noteq> ''c'' \<and> ''b'' \<noteq> ''c'' \<and>
   fl (4 - 1) < of_int 3600 \<and> fl (5 - 2) < of_int 3600 \<and>
   fst (get (snd (put (snd (put (snd (put (lru_init 2 3600) ''a'' (1::int) 0)) ''b'' 2 1)) ''c'' 3 2))
          ''a'' 3) = Inr None \<and>
   fst (get (snd (get (snd (put (snd (put (snd (put (lru_init 2 3600) ''a'' (1::int) 0)) ''b'' 2 1)) ''c'' 3 2))
          ''a'' 3)) ''b'' 4) = Inr (Some 2) \<and>
   fst (get (snd (get (snd (get (snd (put (snd (put (snd (put (lru_init 2 3600) ''a'' (1::int) 0)) ''b'' 2 1)) ''c'' 3 2))
          ''a'' 3)) ''b'' 4)) ''c'' 5) = Inr (Some 3)"
proof -
  have h1: "''a'' \<noteq> ''b''" and h2: "''a'' \<noteq> ''c''" and h3: "''b'' \<noteq> ''c''" by simp_all
  have h4: "fl (4 - 1) < of_int 3600" and h5: "fl (5 - 2) < of_int 3600" by code_simp+
  from lru_eviction_example [OF h1 h2 h3 h4 h5, of 0 3, unfolded Let_def] h1 h2 h3 h4 h5
  show ?thesis by blast
qed

text \<open>
  Claim C10: \<open>clear\<close> empties the mapping, the timestamps and the access order and
  leaves the four counters as they were; no operation decreases a counter; so
  \<open>get_stats\<close> after \<open>clear\<close> reports the counts from before it (and size 0).
\<close>

theorem clear_keeps_counters:
  "cache (clear c) = [] \<and> timestamps (clear c) = [] \<and> access_order (clear c) = [] \<and>
   stats (clear c) = stats c \<and>
   counters_le (stats c) (stats (clear c)) \<and>
   counters_le (stats c) (stats (snd (get c key now))) \<and>
   counters_le (stats c) (stats (snd (put c key v now))) \<and>
   r_hits (get_stats (clear c)) = hits (stats c) \<and>
   r_misses (get_stats (clear c)) = misses (stats c) \<and>
   r_evictions (get_stats (clear c)) = evictions (stats c) \<and>
   r_expired (get_stats (clear c)) = expired (stats c) \<and>
   total_requests (get_stats (clear c)) = total_requests (get_stats c) \<and>
   hit_rate (get_stats (clear c)) = hit_rate (get_stats c) \<and>
   cache_size (get_stats (clear c)) = 0"
  by (simp add: clear_def counters_le_def get_stats_def get_def put_def put_prepare_def
      remove_key_def Let_def split: option.splits list.splits)

section \<open>Properties of the monitor\<close>

lemma pow2_pos: "0 < pow2 e"
  by (simp add: pow2_def)

lemma round_half_even_nonneg: "0 \<le> x \<Longrightarrow> 0 \<le> round_half_even x"
  by (simp add: round_half_even_def Let_def)

lemma fl_nonneg:
  assumes "0 \<le> x"
  shows "0 \<le> fl x"
proof (cases "x = 0")
  case True
  then show ?thesis by (simp add: fl_def)
next
  case False
  with assms have pos: "0 < x" by simp
  have "0 \<le> of_int (round_half_even (\<bar>x\<bar> / pow2 e)) * pow2 e" for e
    using round_half_even_nonneg [of "\<bar>x\<bar> / pow2 e"] pow2_pos [of e]
    by (simp add: zero_le_mult_iff zero_le_divide_iff less_imp_le)
  with pos show ?thesis
    by (simp add: fl_def Let_def mult.assoc)
qed

lemma percentile_index:
  assumes "data \<noteq> []" and "0 \<le> p"
  shows "percentile data p =
           Inr (sort data ! min (nat \<lfloor>fl (fl (of_int p / 100) * of_nat (length data))\<rfloor>)
                                (length data - 1))"
proof -
  let ?x = "fl (fl (of_int p / 100) * of_nat (length data))"
  from assms(2) have "0 \<le> fl (of_int p / 100)" by (intro fl_nonneg) simp
  then have x: "0 \<le> ?x" by (intro fl_nonneg) simp
  then have i: "py_int ?x = \<lfloor>?x\<rfloor>" and f: "0 \<le> \<lfloor>?x\<rfloor>" by (simp_all add: py_int_def)
  from assms(1) have n: "0 < length data" by simp
  let ?j = "min \<lfloor>?x\<rfloor> (int (length data) - 1)"
  from f n have j: "0 \<le> ?j" "?j < int (length data)" by auto
  from f n have "nat ?j = min (nat \<lfloor>?x\<rfloor>) (length data - 1)" by auto
  moreover from j have "py_index (sort data) ?j = Inr (sort data ! nat ?j)"
    unfolding py_index_def by simp
  ultimately show ?thesis
    using assms(1) by (simp add: percentile_def Let_def i)
qed

lemma summary_percentiles:
  assumes "get_performance_summary mon window now = Inr (Summary s)"
  shows "percentile (map duration (filter (\<lambda>m. fl (now - of_int window) \<le> timestamp m)
             (metrics_history mon))) 95 = Inr (p95_response_time s) \<and>
         percentile (map duration (filter (\<lambda>m. fl (now - of_int window) \<le> timestamp m)
             (metrics_history mon))) 99 = Inr (p99_response_time s)"
  using assms
  by (auto simp: get_performance_summary_def Let_def split: if_splits sum.splits)

lemma p95_of_100: "percentile (map of_int [1..100]) 95 = Inr 96"
  by code_simp

lemma sorted_94: "sort (map rat_of_int [1..100]) ! 94 = 95"
  by code_simp

lemma sorted_95: "sort (map rat_of_int [1..100]) ! 95 = 96"
  by code_simp

lemma index_95_of_100: "nat \<lfloor>fl (fl (95 / 100) * 100)\<rfloor> = 95"
  by code_simp

text \<open>
  Claim C4, as stated, fails on its example: for the durations 1 to 100 the index is
  \<open>int(0.95 * 100) = 95\<close>, counted from 0, so \<open>_percentile\<close> returns 96, the 96th value in
  ascending order, not the 95th (which is 95).
\<close>

theorem p95_is_not_the_95th_value:
  "percentile (map of_int [1..100]) 95 \<noteq> Inr (sort (map of_int [1..100]) ! (95 - 1))"
  by (simp add: p95_of_100 sorted_94)

text \<open>
  Claim C4, amended: for a non-empty list of \<open>n\<close> durations and \<open>p \<ge> 0\<close>, the percentile
  is the element of the ascending-sorted list at the index \<open>floor(p/100 * n)\<close> (the
  division and the product in float arithmetic, as the code computes them), counted from
  0 and clamped to the last index \<open>n - 1\<close>; for the durations 1 to 100, p95 is the
  element at index 95, which is 96, the 96th value in ascending order.
\<close>

theorem percentile_nearest_rank:
  assumes "data \<noteq> []" and "0 \<le> p"
  shows "percentile data p =
           Inr (sort data ! min (nat \<lfloor>fl (fl (of_int p / 100) * of_nat (length data))\<rfloor>)
                                (length data - 1)) \<and>
         percentile (map of_int [1..100]) 95 = Inr (sort (map of_int [1..100]) ! 95) \<and>
         sort (map rat_of_int [1..100]) ! 95 = 96"
  using percentile_index [OF assms] by (simp add: p95_of_100 sorted_95)

theorem percentile_nearest_rank_witness:
  "map rat_of_int [1..100] \<noteq> [] \<and> (0::int) \<le> 95 \<and>
   percentile (map of_int [1..100]) 95 =
     Inr (sort (map of_int [1..100]) !
            min (nat \<lfloor>fl (fl (of_int 95 / 100) * of_nat (length (map rat_of_int [1..100])))\<rfloor>)
                (length (map rat_of_int [1..100]) - 1))"
proof -
  have h1: "map rat_of_int [1..100] \<noteq> []" by code_simp
  have h2: "(0::int) \<le> 95" by simp
  from percentile_nearest_rank [OF h1 h2] h1 h2 show ?thesis by blast
qed

section \<open>Encodable strings\<close>

text \<open>The string operations of the optimizer and of the compressor build their results from
  the characters of their arguments and of Latin-1 literals, so they keep strings encodable.\<close>

lemma encodable_iff: "encodable s \<longleftrightarrow> (\<forall>c \<in> set s. \<not> is_surrogate c)"
  by (simp add: encodable_def list_all_iff)

lemma encodable_Nil: "encodable []"
  by (simp add: encodable_def)

lemma encodable_append: "encodable (a @ b) \<longleftrightarrow> encodable a \<and> encodable b"
  by (simp add: encodable_def)

lemma encodable_latin: "encodable (latin s)"
  by (auto simp: encodable_iff latin_def)

lemma encodable_subset: "set a \<subseteq> set b \<Longrightarrow> encodable b \<Longrightarrow> encodable a"
  by (auto simp: encodable_iff)

lemma set_replace_from: "set (replace_from k old new s) \<subseteq> set new \<union> set s"
  by (induction s arbitrary: k) auto

lemma set_replace: "set (replace s old new) \<subseteq> set new \<union> set s"
  using set_replace_from [of 0 old new s] by (auto simp: replace_def)

lemma encodable_replace: "encodable s \<Longrightarrow> encodable new \<Longrightarrow> encodable (replace s old new)"
  using set_replace [of s old new] by (auto simp: encodable_iff)

lemma set_split_ws_from: "x \<in> set (split_ws_from w s) \<Longrightarrow> set x \<subseteq> set w \<union> set s"
proof (induction s arbitrary: w)
  case Nil
  then show ?case by (auto split: if_splits)
next
  case (Cons c s)
  show ?case
  proof (cases "isspace c")
    case True
    with Cons.prems have "x = w \<or> x \<in> set (split_ws_from [] s)"
      by (auto split: if_splits)
    with Cons.IH [of "[]"] show ?thesis by auto
  next
    case False
    with Cons.prems have "x \<in> set (split_ws_from (w @ [c]) s)" by simp
    with Cons.IH [of "w @ [c]"] show ?thesis by auto
  qed
qed

lemma encodable_split_ws: "encodable s \<Longrightarrow> x \<in> set (split_ws s) \<Longrightarrow> encodable x"
  using set_split_ws_from [of x "[]" s] by (auto simp: encodable_iff split_ws_def)

lemma split_on_nonempty: "split_on sep s \<noteq> []"
  by (induction s) (auto split: list.splits)

lemma set_split_on: "x \<in> set (split_on sep s) \<Longrightarrow> set x \<subseteq> set s"
proof (induction s arbitrary: x)
  case Nil
  then show ?case by simp
next
  case (Cons c s)
  obtain w ws where ws: "split_on sep s = w # ws"
    using split_on_nonempty [of sep s] by (cases "split_on sep s") auto
  have w: "set w \<subseteq> set s" using Cons.IH [of w] ws by simp
  have rest: "y \<in> set ws \<Longrightarrow> set y \<subseteq> set s" for y using Cons.IH [of y] ws by simp
  from Cons.prems ws have "x = [] \<or> x = w \<or> x = c # w \<or> x \<in> set ws"
    by (auto split: if_splits)
  with w rest show ?case by auto
qed

lemma encodable_split_on: "encodable s \<Longrightarrow> x \<in> set (split_on sep s) \<Longrightarrow> encodable x"
  using set_split_on [of x sep s] by (auto simp: encodable_iff)

lemma encodable_join:
  "encodable sep \<Longrightarrow> (\<forall>x \<in> set xs. encodable x) \<Longrightarrow> encodable (join sep xs)"
  by (induction sep xs rule: join.induct) (auto simp: encodable_append encodable_Nil)

lemma encodable_strip: "encodable s \<Longrightarrow> encodable (strip s)"
proof -
  have "set (strip s) \<subseteq> set s"
    by (auto simp: strip_def dest!: set_dropWhileD)
  then show "encodable s \<Longrightarrow> encodable (strip s)" by (rule encodable_subset)
qed

lemma foldl_preserves:
  assumes "\<And>st x. P st \<Longrightarrow> P (f st x)" and "P a"
  shows "P (foldl f a xs)"
  using assms(2) by (induction xs arbitrary: a) (auto intro: assms(1))

lemma encodable_remove_redundant:
  "encodable (fst st) \<Longrightarrow> encodable (fst (remove_redundant rt st phrase))"
  by (cases st) (simp add: remove_redundant_def encodable_replace encodable_Nil)

lemma encodable_remove_filler:
  "encodable (fst st) \<Longrightarrow> encodable (fst (remove_filler rt st word))"
  by (cases st) (simp add: remove_filler_def Let_def encodable_replace encodable_latin)

lemma encodable_simplify_verbose:
  "encodable (fst st) \<Longrightarrow> encodable (fst (simplify_verbose rt st pat))"
  by (cases st, cases pat) (simp add: simplify_verbose_def encodable_replace encodable_latin)

lemma encodable_apply_domain:
  "encodable (fst st) \<Longrightarrow> encodable (fst (apply_domain rt domain st))"
  by (cases st)
     (simp add: apply_domain_def optimize_devops_prompt_def optimize_sre_prompt_def
        optimize_cloud_prompt_def optimize_platform_prompt_def Let_def newline2_def
        encodable_append encodable_latin)

lemma encodable_rewrite_prompt:
  assumes "encodable prompt"
  shows "encodable (fst (rewrite_prompt rt prompt domain))"
proof -
  let ?st1 = "foldl (remove_redundant rt) (prompt, []) redundant_phrases"
  let ?st2 = "foldl (remove_filler rt) ?st1 filler_words"
  let ?st3 = "foldl (simplify_verbose rt) ?st2 verbose_patterns"
  let ?st4 = "apply_domain rt domain ?st3"
  have st1: "encodable (fst ?st1)"
    by (rule foldl_preserves [where P = "\<lambda>st. encodable (fst st)"])
       (simp_all add: encodable_remove_redundant assms)
  have st2: "encodable (fst ?st2)"
    by (rule foldl_preserves [where P = "\<lambda>st. encodable (fst st)"])
       (simp_all add: encodable_remove_filler st1)
  have "encodable (fst ?st3)"
    by (rule foldl_preserves [where P = "\<lambda>st. encodable (fst st)"])
       (simp_all add: encodable_simplify_verbose st2)
  then have "encodable (fst ?st4)" by (rule encodable_apply_domain)
  then have "encodable (join (latin '' '') (split_ws (fst ?st4)))"
    by (intro encodable_join) (auto simp: encodable_latin intro: encodable_split_ws)
  then show ?thesis by (simp add: rewrite_prompt_def Let_def)
qed

subsection \<open>Lines extracted by the compressor\<close>

lemma all_encodable_iff: "all_encodable xs \<longleftrightarrow> (\<forall>x \<in> set xs. encodable x)"
  by (simp add: all_encodable_def list_all_iff)

lemma all_encodable_subset: "set xs \<subseteq> set ys \<Longrightarrow> all_encodable ys \<Longrightarrow> all_encodable xs"
  by (auto simp: all_encodable_iff)

lemma all_encodable_take: "all_encodable xs \<Longrightarrow> all_encodable (take k xs)"
  by (rule all_encodable_subset [OF set_take_subset])

lemma all_encodable_append:
  "all_encodable (xs @ ys) \<longleftrightarrow> all_encodable xs \<and> all_encodable ys"
  by (simp add: all_encodable_def)

lemma all_encodable_Nil: "all_encodable []"
  by (simp add: all_encodable_def)

lemma all_encodable_Cons: "all_encodable (x # xs) \<longleftrightarrow> encodable x \<and> all_encodable xs"
  by (simp add: all_encodable_def)

lemma all_encodable_split_on: "encodable s \<Longrightarrow> all_encodable (split_on sep s)"
  by (auto simp: all_encodable_iff intro: encodable_split_on)

lemma all_encodable_key_phrases:
  assumes "encodable text"
  shows "all_encodable (extract_key_phrases rt text)"
proof -
  have "all_encodable (map strip (split_on (Latin CHR ''.'') text))"
    using all_encodable_split_on [OF assms, of "Latin CHR ''.''"]
    by (auto simp: all_encodable_iff intro: encodable_strip)
  then show ?thesis
    unfolding extract_key_phrases_def
    by (intro all_encodable_take) (auto simp: all_encodable_iff)
qed

lemma info_ok_classify_line:
  assumes "encodable raw_line" and "info_ok st"
  shows "info_ok (classify_line rt st raw_line)"
proof -
  have line: "encodable (strip raw_line)" by (rule encodable_strip [OF assms(1)])
  then have "all_encodable (filter P (split_ws (strip raw_line)))" for P
    by (auto simp: all_encodable_iff intro: encodable_split_ws)
  with line assms(2) show ?thesis
    by (simp add: classify_line_def Let_def info_ok_def all_encodable_append
        all_encodable_Cons all_encodable_Nil)
qed

lemma foldl_preserves_on:
  assumes "\<And>st x. x \<in> set xs \<Longrightarrow> P st \<Longrightarrow> P (f st x)" and "P a"
  shows "P (foldl f a xs)"
  using assms by (induction xs arbitrary: a) auto

lemma info_ok_extract:
  assumes "runtime_ok rt" and "encodable text"
  shows "info_ok (extract_structured_info rt text)"
proof -
  let ?st = "foldl (classify_line rt)
               \<lparr>services = [], info_metrics = [], errors = [], recommendations = []\<rparr>
               (split_on (Latin CHR 0x0A) text)"
  have "info_ok ?st"
  proof (rule foldl_preserves_on [where P = info_ok])
    fix st x
    assume "x \<in> set (split_on (Latin CHR 0x0A) text)" and "info_ok st"
    then show "info_ok (classify_line rt st x)"
      using encodable_split_on [OF assms(2)] by (intro info_ok_classify_line) auto
  next
    show "info_ok \<lparr>services = [], info_metrics = [], errors = [], recommendations = []\<rparr>"
      by (simp add: info_ok_def all_encodable_Nil)
  qed
  moreover have "all_encodable xs \<Longrightarrow> all_encodable (take 5 (list_of_set rt xs))" for xs
    using assms(1) by (auto simp: runtime_ok_def all_encodable_iff dest!: in_set_takeD)
  ultimately show ?thesis
    by (simp add: extract_structured_info_def Let_def info_ok_def)
qed

lemma all_encodable_category_line:
  "all_encodable items \<Longrightarrow> all_encodable (category_line category items)"
  by (auto simp: category_line_def all_encodable_iff encodable_append encodable_latin
      intro!: encodable_join dest!: in_set_takeD)

lemma encodable_build_compressed:
  assumes "info_ok info" and "all_encodable key_phrases"
  shows "encodable (build_compressed info key_phrases)"
proof -
  have "all_encodable (map (\<lambda>phrase. latin ''- '' @ phrase) (take 10 key_phrases))"
    using assms(2)
    by (auto simp: all_encodable_iff encodable_append encodable_latin dest!: in_set_takeD)
  with assms(1) have "all_encodable
       ([latin ''Key Information:''] @
        category_line ''services'' (services info) @
        category_line ''metrics'' (info_metrics info) @
        category_line ''errors'' (errors info) @
        category_line ''recommendations'' (recommendations info) @
        (if key_phrases = [] then []
         else [latin (CHR 0x0A # ''Important Details:'')] @
              map (\<lambda>phrase. latin ''- '' @ phrase) (take 10 key_phrases)))"
    by (simp add: all_encodable_append all_encodable_Cons all_encodable_Nil info_ok_def
        all_encodable_category_line encodable_latin)
  then show ?thesis
    unfolding build_compressed_def
    by (intro encodable_join) (simp_all add: all_encodable_iff encodable_def)
qed

lemma encodable_aggressive_compress:
  assumes "encodable text"
  shows "encodable (aggressive_compress text)"
  unfolding aggressive_compress_def
  using all_encodable_split_on [OF assms, of "Latin CHR 0x0A"]
  by (intro encodable_join)
     (auto simp: all_encodable_iff encodable_def [of "[Latin c]" for c]
        intro!: encodable_replace encodable_latin)

subsection \<open>Cached texts\<close>

text \<open>The cache operations only remove entries or add the one they are given, and a key
  derivation that succeeds has an encodable argument: both caches keep holding encodable
  texts, and what \<open>optimize_prompt\<close> and \<open>compress_context\<close> return is encodable.\<close>

lemma set_alist_delete: "set (AList.delete k d) \<subseteq> set d"
  by (induction d) auto

lemma set_alist_update: "set (AList.update k v d) \<subseteq> insert (k, v) (set d)"
  by (induction d) auto

lemma list_all_subset: "set xs \<subseteq> set ys \<Longrightarrow> list_all P ys \<Longrightarrow> list_all P xs"
  by (auto simp: list_all_iff)

lemma remove_key_cache_subset: "set (cache (snd (remove_key c key))) \<subseteq> set (cache c)"
  using set_alist_delete [of key "cache c"] by (simp add: remove_key_def Let_def)

lemma get_cache_subset: "set (cache (snd (get c key now))) \<subseteq> set (cache c)"
proof (cases "remove_key c key")
  case (Pair r c1)
  with remove_key_cache_subset [of c key] have "set (cache c1) \<subseteq> set (cache c)" by simp
  with Pair show ?thesis
    by (auto simp: get_def split: option.splits sum.splits)
qed

lemma get_hit_in_cache:
  "fst (get c key now) = Inr (Some v) \<Longrightarrow> (key, v) \<in> set (cache c)"
  by (auto simp: get_def split: option.splits if_splits prod.splits sum.splits
      dest: map_of_SomeD)

lemma put_prepare_cache_subset: "set (cache (snd (put_prepare c key))) \<subseteq> set (cache c)"
proof (cases "access_order c")
  case Nil
  then show ?thesis by (simp add: put_prepare_def)
next
  case (Cons oldest rest)
  obtain r c1 where rk: "remove_key (c\<lparr>access_order := rest\<rparr>) oldest = (r, c1)"
    by (cases "remove_key (c\<lparr>access_order := rest\<rparr>) oldest") auto
  with remove_key_cache_subset [of "c\<lparr>access_order := rest\<rparr>" oldest]
  have "set (cache c1) \<subseteq> set (cache c)" by simp
  with Cons rk show ?thesis
    by (auto simp: put_prepare_def split: sum.splits)
qed

lemma put_cache_subset:
  "set (cache (snd (put c key v now))) \<subseteq> insert (key, v) (set (cache c))"
proof (cases "put_prepare c key")
  case (Pair r c1)
  with put_prepare_cache_subset [of c key] have sub: "set (cache c1) \<subseteq> set (cache c)" by simp
  show ?thesis
  proof (cases r)
    case (Inl e)
    with Pair sub show ?thesis by (auto simp: put_def)
  next
    case (Inr u)
    with Pair sub set_alist_update [of key v "cache c1"] show ?thesis
      by (auto simp: put_def)
  qed
qed

lemma md5_hex_encodable: "md5_hex rt s = Inr k \<Longrightarrow> encodable s"
  by (simp add: md5_hex_def split: if_splits)

lemma md5_hex_ok: "encodable s \<Longrightarrow> md5_hex rt s = Inr (md5_hexdigest rt s)"
  by (simp add: md5_hex_def)

lemma optimize_prompt_cache_ok:
  assumes "prompt_cache_ok po"
  shows "prompt_cache_ok (fst (snd (optimize_prompt rt clk po n prompt domain)))"
proof (cases "md5_hex rt (prompt @ latin '':'' @ domain)")
  case (Inl e)
  with assms show ?thesis by (simp add: optimize_prompt_def)
next
  case (Inr key)
  then have enc: "encodable prompt"
    using md5_hex_encodable [of rt "prompt @ latin '':'' @ domain" key]
    by (simp add: encodable_append)
  obtain r c1 where g: "get (optimization_cache po) key (clk n) = (r, c1)"
    by (cases "get (optimization_cache po) key (clk n)") auto
  with get_cache_subset [of "optimization_cache po" key "clk n"]
  have sub1: "set (cache c1) \<subseteq> set (cache (optimization_cache po))" by simp
  have ok1: "list_all (\<lambda>kv. encodable (optimized_prompt (snd kv))) (cache c1)"
    using list_all_subset [OF sub1] assms unfolding prompt_cache_ok_def by blast
  have ok2: "list_all (\<lambda>kv. encodable (optimized_prompt (snd kv)))
               (cache (snd (put c1 key res now)))"
    if "encodable (optimized_prompt res)" for res now
    using put_cache_subset [of c1 key res now] ok1 that
    by (auto simp: list_all_iff)
  show ?thesis
  proof (cases r)
    case (Inl e)
    with Inr g ok1 show ?thesis by (simp add: optimize_prompt_def prompt_cache_ok_def)
  next
    case r: (Inr found)
    show ?thesis
    proof (cases found)
      case (Some cached_result)
      with Inr g r ok1 show ?thesis by (simp add: optimize_prompt_def prompt_cache_ok_def)
    next
      case None
      show ?thesis
      proof (cases "prompt = []")
        case True
        with None Inr g r ok1 show ?thesis
          by (simp add: optimize_prompt_def prompt_cache_ok_def Let_def)
      next
        case False
        define res where "res =
          \<lparr>optimized_prompt = fst (rewrite_prompt rt prompt domain),
           pr_metrics =
             \<lparr>original_length = length prompt,
              optimized_length = length (fst (rewrite_prompt rt prompt domain)),
              compression_ratio =
                fl (1 - fl (of_nat (length (fst (rewrite_prompt rt prompt domain))) /
                            of_nat (length prompt))),
              optimization_time = fl (clk (n + 2) - clk (n + 1)),
              prompt_optimizations_applied = snd (rewrite_prompt rt prompt domain),
              metrics_domain = domain\<rparr>\<rparr>"
        have "encodable (optimized_prompt res)"
          using encodable_rewrite_prompt [OF enc, of rt domain] by (simp add: res_def)
        from ok2 [OF this, of "clk (n + 3)"]
        have ok3: "list_all (\<lambda>kv. encodable (optimized_prompt (snd kv)))
                     (cache (snd (put c1 key res (clk (n + 3)))))" .
        obtain r2 c2 where p: "put c1 key res (clk (n + 3)) = (r2, c2)"
          by (cases "put c1 key res (clk (n + 3))") auto
        with ok3 have "list_all (\<lambda>kv. encodable (optimized_prompt (snd kv))) (cache c2)" by simp
        with p False None Inr g r show ?thesis
          by (cases r2) (simp_all add: optimize_prompt_def prompt_cache_ok_def Let_def res_def)
      qed
    qed
  qed
qed

lemma optimize_prompt_result_encodable:
  assumes "prompt_cache_ok po"
    and "fst (optimize_prompt rt clk po n prompt domain) = Inr (optimized, pm)"
  shows "encodable optimized \<and> encodable domain"
proof (cases "md5_hex rt (prompt @ latin '':'' @ domain)")
  case (Inl e)
  with assms(2) show ?thesis by (simp add: optimize_prompt_def)
next
  case (Inr key)
  then have enc: "encodable prompt" "encodable domain"
    using md5_hex_encodable [of rt "prompt @ latin '':'' @ domain" key]
    by (simp_all add: encodable_append)
  obtain r c1 where g: "get (optimization_cache po) key (clk n) = (r, c1)"
    by (cases "get (optimization_cache po) key (clk n)") auto
  show ?thesis
  proof (cases r)
    case (Inl e)
    with Inr g assms(2) show ?thesis by (simp add: optimize_prompt_def)
  next
    case r: (Inr found)
    show ?thesis
    proof (cases found)
      case (Some cached_result)
      with g r have "(key, cached_result) \<in> set (cache (optimization_cache po))"
        using get_hit_in_cache [of "optimization_cache po" key "clk n" cached_result] by simp
      with assms(1) have "encodable (optimized_prompt cached_result)"
        by (auto simp: prompt_cache_ok_def list_all_iff)
      with Some Inr g r assms(2) enc show ?thesis by (simp add: optimize_prompt_def)
    next
      case None
      with Inr g r assms(2) enc encodable_rewrite_prompt [OF enc(1), of rt domain] show ?thesis
        by (auto simp: optimize_prompt_def Let_def split: prod.splits sum.splits if_splits)
    qed
  qed
qed

lemma encodable_compressed_text:
  assumes "runtime_ok rt" and "encodable context"
  shows "encodable (compressed_text rt context target)"
proof -
  have "encodable (build_compressed (extract_structured_info rt context)
          (extract_key_phrases rt context))"
    by (rule encodable_build_compressed [OF info_ok_extract [OF assms]
          all_encodable_key_phrases [OF assms(2)]])
  then show ?thesis
    by (simp add: compressed_text_def Let_def encodable_aggressive_compress)
qed

lemma compress_context_unfold:
  assumes "md5_hex rt (context @ latin ('':'' @ float_str rt target)) = Inr key"
    and "get (compression_cache cc) key (clk n) = (Inr None, c1)"
    and "context \<noteq> []"
  shows "compress_context rt clk cc n context target =
           (case put c1 key \<lparr>compressed = compressed_text rt context target,
                              cr_metrics = metrics_of_compression rt clk n context target\<rparr>
                   (clk (n + 3)) of
              (Inl e, c2) \<Rightarrow> (Inl e, cc\<lparr>compression_cache := c2\<rparr>, n + 4)
            | (Inr u, c2) \<Rightarrow>
                (Inr (compressed_text rt context target,
                      metrics_of_compression rt clk n context target),
                 cc\<lparr>compression_cache := c2\<rparr>, n + 4))"
  using assms
  by (simp add: compress_context_def compressed_text_def metrics_of_compression_def Let_def
      split: prod.splits sum.splits)

lemma compress_context_cache_ok:
  assumes "runtime_ok rt" and "compression_cache_ok cc"
  shows "compression_cache_ok (fst (snd (compress_context rt clk cc n context target)))"
proof (cases "md5_hex rt (context @ latin ('':'' @ float_str rt target))")
  case (Inl e)
  with assms(2) show ?thesis by (simp add: compress_context_def)
next
  case (Inr key)
  then have enc: "encodable context"
    using md5_hex_encodable [of rt "context @ latin ('':'' @ float_str rt target)" key]
    by (simp add: encodable_append)
  obtain r c1 where g: "get (compression_cache cc) key (clk n) = (r, c1)"
    by (cases "get (compression_cache cc) key (clk n)") auto
  with get_cache_subset [of "compression_cache cc" key "clk n"]
  have sub1: "set (cache c1) \<subseteq> set (cache (compression_cache cc))" by simp
  have ok1: "list_all (\<lambda>kv. encodable (compressed (snd kv))) (cache c1)"
    using list_all_subset [OF sub1] assms(2) unfolding compression_cache_ok_def by blast
  show ?thesis
  proof (cases r)
    case (Inl e)
    with Inr g ok1 show ?thesis by (simp add: compress_context_def compression_cache_ok_def)
  next
    case r: (Inr found)
    show ?thesis
    proof (cases found)
      case (Some cached_result)
      with Inr g r ok1 show ?thesis by (simp add: compress_context_def compression_cache_ok_def)
    next
      case None
      show ?thesis
      proof (cases "context = []")
        case True
        with None Inr g r ok1 show ?thesis
          by (simp add: compress_context_def compression_cache_ok_def Let_def)
      next
        case False
        let ?m = "metrics_of_compression rt clk n context target"
        from g r None have g': "get (compression_cache cc) key (clk n) = (Inr None, c1)" by simp
        note u = compress_context_unfold [where clk = clk and n = n, OF Inr g' False]
        let ?res = "\<lparr>compressed = compressed_text rt context target, cr_metrics = ?m\<rparr>"
        obtain r2 c2 where p: "put c1 key ?res (clk (n + 3)) = (r2, c2)"
          by (cases "put c1 key ?res (clk (n + 3))") auto
        with put_cache_subset [of c1 key ?res "clk (n + 3)"]
        have "set (cache c2) \<subseteq> insert (key, ?res) (set (cache c1))" by simp
        with ok1 encodable_compressed_text [OF assms(1) enc, of target]
        have "list_all (\<lambda>kv. encodable (compressed (snd kv))) (cache c2)"
          by (auto simp: list_all_iff)
        with p u show ?thesis
          by (cases r2) (simp_all add: compression_cache_ok_def)
      qed
    qed
  qed
qed

lemma compress_context_result_encodable:
  assumes "runtime_ok rt" and "compression_cache_ok cc"
    and "fst (compress_context rt clk cc n context target) = Inr (text, cm)"
  shows "encodable text"
proof (cases "md5_hex rt (context @ latin ('':'' @ float_str rt target))")
  case (Inl e)
  with assms(3) show ?thesis by (simp add: compress_context_def)
next
  case (Inr key)
  then have enc: "encodable context"
    using md5_hex_encodable [of rt "context @ latin ('':'' @ float_str rt target)" key]
    by (simp add: encodable_append)
  obtain r c1 where g: "get (compression_cache cc) key (clk n) = (r, c1)"
    by (cases "get (compression_cache cc) key (clk n)") auto
  show ?thesis
  proof (cases r)
    case (Inl e)
    with Inr g assms(3) show ?thesis by (simp add: compress_context_def)
  next
    case r: (Inr found)
    show ?thesis
    proof (cases found)
      case (Some cached_result)
      with g r have "(key, cached_result) \<in> set (cache (compression_cache cc))"
        using get_hit_in_cache [of "compression_cache cc" key "clk n" cached_result] by simp
      with assms(2) have "encodable (compressed cached_result)"
        by (auto simp: compression_cache_ok_def list_all_iff)
      with Some Inr g r assms(3) show ?thesis by (simp add: compress_context_def)
    next
      case None
      show ?thesis
      proof (cases "context = []")
        case True
        with None Inr g r assms(3) show ?thesis
          by (simp add: compress_context_def Let_def)
      next
        case False
        let ?m = "metrics_of_compression rt clk n context target"
        from g r None have g': "get (compression_cache cc) key (clk n) = (Inr None, c1)" by simp
        note u = compress_context_unfold [where clk = clk and n = n, OF Inr g' False]
        with assms(3) have "text = compressed_text rt context target"
          by (auto split: prod.splits sum.splits)
        with encodable_compressed_text [OF assms(1) enc, of target] show ?thesis by simp
      qed
    qed
  qed
qed

section \<open>Properties of the prompt optimizer\<close>

lemma rewrite_could_you_please:
  "rewrite_prompt rt (latin ''Could you please analyze my pipeline'') (latin ''devops'') =
     (latin ''Could you analyze my pipeline Provide response in structured JSON format with clear sections for analysis, recommendations, and implementation steps. Focus on actionable, production-ready solutions with specific commands and configurations.'',
      [''removed_redundant: please'', ''removed_redundant: could you'',
       ''applied_devops_optimizations''])"
  by code_simp

lemma could_you_remains:
  "contains (latin ''could you'')
     (lower rt (latin ''Could you analyze my pipeline Provide response in structured JSON format with clear sections for analysis, recommendations, and implementation steps. Focus on actionable, production-ready solutions with specific commands and configurations.''))"
  by code_simp

lemma latin_not_Nil: "latin (c # cs) \<noteq> []"
  by (simp add: latin_def)

text \<open>
  Claim C3 (\<open>optimize_prompt("Could you please analyze my pipeline", "devops")\<close> removes
  "could you" and "please" whatever their letter case). The code tests each phrase against
  the lowered text but replaces it in the text itself, so the capitalised "Could you"
  stays, while the tag \<open>removed_redundant: could you\<close> is recorded. On a fresh optimizer
  the call returns the text below: "please" is gone, "Could you" is not, and the JSON
  instruction is appended (followed by a second instruction that the word
  "recommendations" of the first one triggers).
\<close>

theorem could_you_is_not_removed:
  "case fst (optimize_prompt rt clk prompt_optimizer_init n
               (latin ''Could you please analyze my pipeline'') (latin ''devops'')) of
     Inl e \<Rightarrow> False
   | Inr (optimized, m) \<Rightarrow>
       optimized = latin ''Could you analyze my pipeline Provide response in structured JSON format with clear sections for analysis, recommendations, and implementation steps. Focus on actionable, production-ready solutions with specific commands and configurations.'' \<and>
       contains (latin ''could you'') (lower rt optimized) \<and>
       prompt_optimizations_applied m =
         [''removed_redundant: please'', ''removed_redundant: could you'',
          ''applied_devops_optimizations'']"
  by (simp add: optimize_prompt_def md5_hex_def encodable_append encodable_latin
      prompt_optimizer_init_def lru_init_def get_def put_def
      put_prepare_def has_key_def Let_def rewrite_could_you_please could_you_remains latin_not_Nil)

text \<open>
  The rest of the claim holds: on a fresh optimizer a second call with the same
  arguments, made while the cached entry is younger than the TTL of 7200 seconds, is a
  cache hit and returns what the first call returned.
\<close>

lemma second_call_is_cache_hit:
  assumes "fl (clk (n + 5) - clk (n + 3)) < 7200" and "prompt \<noteq> []"
    and "encodable prompt" and "encodable domain"
  shows "case optimize_prompt rt clk prompt_optimizer_init n prompt domain of
           (r1, po1, n1) \<Rightarrow>
             n1 = n + 5 \<and>
             (case optimize_prompt rt clk po1 n1 prompt domain of
                (r2, po2, n2) \<Rightarrow>
                  r2 = r1 \<and> (\<exists>out. r1 = Inr out) \<and>
                  hits (stats (optimization_cache po2)) = 1 \<and>
                  misses (stats (optimization_cache po2)) = 1)"
  using assms
  by (simp add: optimize_prompt_def md5_hex_def encodable_append encodable_latin
      prompt_optimizer_init_def lru_init_def get_def put_def
      put_prepare_def has_key_def Let_def)

text \<open>
  Claim C5 (an empty prompt does not fail, the ratio is taken as 0). The code divides by
  \<open>original_length\<close> without a guard: on a fresh optimizer, \<open>optimize_prompt("", domain)\<close>
  raises ZeroDivisionError for every domain.
\<close>

theorem empty_prompt_raises:
  "fst (optimize_prompt rt clk prompt_optimizer_init n [] (latin domain)) = Inl ZeroDivisionError"
  by (simp add: optimize_prompt_def md5_hex_def encodable_append encodable_latin encodable_Nil
      prompt_optimizer_init_def lru_init_def get_def Let_def)

section \<open>Properties of the pipeline\<close>

subsection \<open>Cache lookup and assembly of the result\<close>

lemma lookup_and_finish_frame:
  "context_compressor (fst (snd (lookup_and_finish rt clk s n st results opt ctx domain))) =
     context_compressor s \<and>
   prompt_optimizer (fst (snd (lookup_and_finish rt clk s n st results opt ctx domain))) =
     prompt_optimizer s"
  by (simp add: lookup_and_finish_def Let_def split: prod.splits sum.splits option.splits)

lemma lookup_and_finish_tags:
  assumes "fst (lookup_and_finish rt clk s n st results opt ctx domain) = Inr res"
  shows "optimizations_applied (optimization_results res) =
           map_option (\<lambda>l. l @ [''cache_hit'']) (optimizations_applied results) \<or>
         optimizations_applied (optimization_results res) = optimizations_applied results"
    and "context_compression (optimization_results res) = context_compression results"
  using assms
  by (auto simp: lookup_and_finish_def Let_def split: prod.splits sum.splits option.splits if_splits)

lemma lookup_and_finish_binding:
  "fst (lookup_and_finish rt clk s n st results opt ctx domain) = Inl (e, c) \<Longrightarrow> c = ctx"
  by (auto simp: lookup_and_finish_def Let_def split: prod.splits sum.splits option.splits if_splits)

lemma lookup_and_finish_returns:
  assumes "lru_inv (global_cache s)" and "encodable opt" and "encodable ctx" and "encodable domain"
  shows "\<exists>res. fst (lookup_and_finish rt clk s n st results opt ctx domain) = Inr res"
proof -
  from assms(2-4) have "encodable (opt @ latin '':'' @ ctx @ latin '':'' @ domain)"
    by (simp add: encodable_append encodable_latin)
  then have k: "md5_hex rt (opt @ latin '':'' @ ctx @ latin '':'' @ domain) =
      Inr (md5_hexdigest rt (opt @ latin '':'' @ ctx @ latin '':'' @ domain))"
    by (rule md5_hex_ok)
  from get_no_error [OF assms(1)]
  obtain r where "fst (get (global_cache s)
      (md5_hexdigest rt (opt @ latin '':'' @ ctx @ latin '':'' @ domain)) (clk n)) = Inr r" by blast
  then show ?thesis
    by (cases "get (global_cache s)
          (md5_hexdigest rt (opt @ latin '':'' @ ctx @ latin '':'' @ domain)) (clk n)")
       (simp add: lookup_and_finish_def k Let_def split: option.splits)
qed

lemma lookup_and_finish_no_raise:
  assumes "lru_inv (global_cache s)" and "encodable opt" and "encodable ctx" and "encodable domain"
  shows "fst (lookup_and_finish rt clk s n st results opt ctx domain) \<noteq> Inl x"
  using lookup_and_finish_returns [OF assms, of rt clk n st results] by auto

lemma lookup_and_finish_global_inv:
  assumes "lru_inv (global_cache s)"
  shows "lru_inv (global_cache (fst (snd (lookup_and_finish rt clk s n st results opt ctx domain))))"
proof (cases "md5_hex rt (opt @ latin '':'' @ ctx @ latin '':'' @ domain)")
  case (Inl e)
  with assms show ?thesis by (simp add: lookup_and_finish_def)
next
  case (Inr key)
  show ?thesis
  proof (cases "get (global_cache s) key (clk n)")
    case (Pair r g1)
    with get_inv [OF assms, of key "clk n"] have "lru_inv g1" by simp
    with Pair Inr show ?thesis
      by (simp add: lookup_and_finish_def Let_def split: sum.splits option.splits)
  qed
qed

subsection \<open>The \<open>try\<close> block\<close>

text \<open>In a state satisfying \<open>optimizer_inv\<close>, an exception of the \<open>try\<close> block leaves the
  local variable \<open>context\<close> bound to the caller's context: the prompt optimizer and the
  compressor raise before line 634 rebinds it, and once the compressor has returned, the
  optimized prompt, the compressed text and the domain are encodable, so the key
  derivation of line 637 does not raise, and neither does the lookup in a cache that
  satisfies \<open>lru_inv\<close>.\<close>

lemma try_without_compression:
  assumes "length context \<le> 5000 \<or> \<not> enable_compression"
  shows "context_compressor (fst (snd (optimize_request_try rt clk s n st prompt context domain
            enable_compression))) = context_compressor s"
    and "fst (optimize_request_try rt clk s n st prompt context domain enable_compression) = Inr res
         \<Longrightarrow> no_compression_tag res \<and> context_compression (optimization_results res) = None"
proof -
  from assms have skip: "\<not> (enable_compression \<and> 5000 < length context)" by auto
  show "context_compressor (fst (snd (optimize_request_try rt clk s n st prompt context domain
            enable_compression))) = context_compressor s"
    using skip
    by (auto simp: optimize_request_try_def Let_def lookup_and_finish_frame
        split: prod.splits sum.splits)
  assume r: "fst (optimize_request_try rt clk s n st prompt context domain enable_compression) = Inr res"
  show "no_compression_tag res \<and> context_compression (optimization_results res) = None"
  proof (cases "optimize_prompt rt clk (prompt_optimizer s) n prompt domain")
    case (fields r1 po1 n1)
    show ?thesis
    proof (cases r1)
      case (Inl e)
      with fields r show ?thesis by (simp add: optimize_request_try_def Let_def)
    next
      case (Inr pr)
      obtain optimized pm where pr: "pr = (optimized, pm)" by (cases pr) auto
      from fields Inr pr r skip
      have "fst (lookup_and_finish rt clk (s\<lparr>prompt_optimizer := po1\<rparr>) n1 st
              \<lparr>original_prompt_length = Some (length prompt),
               original_context_length = Some (length context),
               optimizations_applied = Some [''prompt_optimization''],
               prompt_optimization = Some pm, context_compression = None,
               results_cache_hit = None, final_prompt_length = None,
               final_context_length = None, results_optimization_time = None,
               error = None\<rparr> optimized context domain) = Inr res"
        by (simp add: optimize_request_try_def Let_def)
      from lookup_and_finish_tags [OF this] show ?thesis
        by (auto simp: no_compression_tag_def)
    qed
  qed
qed

lemma try_raise_keeps_context:
  assumes "runtime_ok rt" and "optimizer_inv s"
    and "fst (optimize_request_try rt clk s n st prompt context domain enable_compression) = Inl (e, ctx)"
  shows "ctx = context"
proof (cases "optimize_prompt rt clk (prompt_optimizer s) n prompt domain")
  case (fields r1 po1 n1)
  from assms(2) have g: "lru_inv (global_cache s)" and pc: "prompt_cache_ok (prompt_optimizer s)"
    and cc: "compression_cache_ok (context_compressor s)"
    by (simp_all add: optimizer_inv_def)
  show ?thesis
  proof (cases r1)
    case (Inl e1)
    with fields assms(3) show ?thesis by (simp add: optimize_request_try_def Let_def)
  next
    case (Inr pr)
    obtain optimized pm where pr: "pr = (optimized, pm)" by (cases pr) auto
    from fields Inr pr
    have "fst (optimize_prompt rt clk (prompt_optimizer s) n prompt domain) = Inr (optimized, pm)"
      by simp
    from optimize_prompt_result_encodable [OF pc this]
    have eo: "encodable optimized" and ed: "encodable domain" by simp_all
    let ?s1 = "s\<lparr>prompt_optimizer := po1\<rparr>"
    show ?thesis
    proof (cases "enable_compression \<and> 5000 < length context")
      case False
      with fields Inr pr assms(3) show ?thesis
        by (auto simp: optimize_request_try_def Let_def dest: lookup_and_finish_binding)
    next
      case True
      show ?thesis
      proof (cases "compress_context rt clk (context_compressor ?s1) n1 context default_target_reduction")
        case c: (fields r2 cc1 n2)
        show ?thesis
        proof (cases r2)
          case (Inl e2)
          with c fields Inr pr True assms(3) show ?thesis
            by (simp add: optimize_request_try_def Let_def)
        next
          case r2: (Inr cr)
          obtain compressed_context cm where cr: "cr = (compressed_context, cm)" by (cases cr) auto
          from c r2 cr
          have "fst (compress_context rt clk (context_compressor s) n1 context
                  default_target_reduction) = Inr (compressed_context, cm)" by simp
          from compress_context_result_encodable [OF assms(1) cc this]
          have ec: "encodable compressed_context" .
          have g2: "lru_inv (global_cache (?s1\<lparr>context_compressor := cc1\<rparr>))"
            using g by simp
          from c r2 cr fields Inr pr True assms(3)
          show ?thesis
            by (auto simp: optimize_request_try_def Let_def
                  lookup_and_finish_no_raise [OF g2 eo ec ed])
        qed
      qed
    qed
  qed
qed

lemma try_keeps_inv:
  assumes "runtime_ok rt" and "optimizer_inv s"
  shows "optimizer_inv (fst (snd (optimize_request_try rt clk s n st prompt context domain
           enable_compression)))"
proof (cases "optimize_prompt rt clk (prompt_optimizer s) n prompt domain")
  case (fields r1 po1 n1)
  from assms(2) have g: "lru_inv (global_cache s)" and pc: "prompt_cache_ok (prompt_optimizer s)"
    and cc: "compression_cache_ok (context_compressor s)"
    by (simp_all add: optimizer_inv_def)
  from optimize_prompt_cache_ok [OF pc, of rt clk n prompt domain] fields
  have pc1: "prompt_cache_ok po1" by simp
  let ?s1 = "s\<lparr>prompt_optimizer := po1\<rparr>"
  have inv1: "optimizer_inv ?s1" using g pc1 cc by (simp add: optimizer_inv_def)
  have fin: "optimizer_inv (fst (snd (lookup_and_finish rt clk s' k st results opt ctx domain)))"
    if "optimizer_inv s'" for s' k results opt ctx
    using that lookup_and_finish_global_inv [of s' rt clk k st results opt ctx domain]
      lookup_and_finish_frame [of rt clk s' k st results opt ctx domain]
    by (simp add: optimizer_inv_def)
  show ?thesis
  proof (cases r1)
    case (Inl e1)
    with fields inv1 show ?thesis by (simp add: optimize_request_try_def Let_def)
  next
    case (Inr pr)
    obtain optimized pm where pr: "pr = (optimized, pm)" by (cases pr) auto
    show ?thesis
    proof (cases "enable_compression \<and> 5000 < length context")
      case False
      with fields Inr pr fin [OF inv1] show ?thesis
        by (auto simp: optimize_request_try_def Let_def)
    next
      case True
      show ?thesis
      proof (cases "compress_context rt clk (context_compressor ?s1) n1 context default_target_reduction")
        case c: (fields r2 cc1 n2)
        from compress_context_cache_ok [OF assms(1) cc, of clk n1 "context" default_target_reduction] c
        have cc1: "compression_cache_ok cc1" by simp
        have inv2: "optimizer_inv (?s1\<lparr>context_compressor := cc1\<rparr>)"
          using g pc1 cc1 by (simp add: optimizer_inv_def)
        show ?thesis
        proof (cases r2)
          case (Inl e2)
          with c fields Inr pr True inv2 show ?thesis
            by (simp add: optimize_request_try_def Let_def)
        next
          case r2: (Inr cr)
          obtain compressed_context cm where cr: "cr = (compressed_context, cm)" by (cases cr) auto
          from c r2 cr fields Inr pr True fin [OF inv2] show ?thesis
            by (simp add: optimize_request_try_def Let_def)
        qed
      qed
    qed
  qed
qed

subsection \<open>Reachable states\<close>

text \<open>\<open>optimizer_inv\<close> holds for a new optimizer and is kept by \<open>optimize_request\<close>,
  \<open>cache_response\<close>, \<open>cleanup_resources\<close> and the recording of a metric.\<close>

lemma optimize_request_keeps_inv:
  assumes "runtime_ok rt" and "optimizer_inv s"
  shows "optimizer_inv (fst (snd (optimize_request rt clk s n prompt context domain
           enable_streaming enable_compression)))"
proof (cases "optimize_request_try rt clk s (n + 1) (clk n) prompt context domain enable_compression")
  case (fields r s1 n1)
  with try_keeps_inv [OF assms, of clk "n + 1" "clk n" prompt "context" domain enable_compression]
  have "optimizer_inv s1" by simp
  with fields show ?thesis
    by (simp add: optimize_request_def Let_def optimizer_inv_def split: sum.splits prod.splits)
qed

lemma cache_response_keeps_inv:
  assumes "optimizer_inv s"
  shows "optimizer_inv (snd (cache_response s key resp now))"
proof (cases "put (global_cache s) key resp now")
  case (Pair r g1)
  from assms have "lru_inv (global_cache s)" by (simp add: optimizer_inv_def)
  with put_inv [of "global_cache s" key resp now] Pair have "lru_inv g1" by simp
  with Pair assms show ?thesis by (simp add: cache_response_def optimizer_inv_def)
qed

lemma cleanup_keeps_inv: "optimizer_inv (cleanup_resources s)"
  by (simp add: cleanup_resources_def optimizer_inv_def lru_inv_def keys_Nil
      prompt_cache_ok_def compression_cache_ok_def clear_def)

lemma init_inv: "optimizer_inv optimizer_init"
  by (simp add: optimizer_init_def optimizer_inv_def lru_inv_def keys_Nil
      prompt_cache_ok_def compression_cache_ok_def prompt_optimizer_init_def
      context_compressor_init_def lru_init_def)

lemma reachable_inv:
  assumes "runtime_ok rt" and "reachable rt s"
  shows "optimizer_inv s"
  using assms(2)
proof (induction rule: reachable.induct)
  case constructed
  show ?case by (rule init_inv)
next
  case (requested s clk n prompt ctx domain enable_streaming enable_compression)
  then show ?case by (intro optimize_request_keeps_inv [OF assms(1)])
next
  case (responded s cache_key resp now)
  then show ?case by (intro cache_response_keeps_inv)
next
  case (cleaned s)
  show ?case by (rule cleanup_keeps_inv)
next
  case (recorded s metric)
  then show ?case by (simp add: optimizer_inv_def)
qed

subsection \<open>Claims about the pipeline\<close>

text \<open>
  Claim C9: with a context of at most 5000 characters, or with compression disabled,
  \<open>optimize_request\<close> does not run the compressor (the compressor, cache and counters
  included, is as it was before the call) and the result carries neither the tag
  \<open>context_compression\<close> nor the compression metrics.
\<close>

theorem no_compression_for_short_context:
  assumes "length context \<le> 5000 \<or> \<not> enable_compression"
  shows "context_compressor
           (fst (snd (optimize_request rt clk s n prompt context domain enable_streaming
              enable_compression))) = context_compressor s \<and>
         no_compression_tag
           (fst (optimize_request rt clk s n prompt context domain enable_streaming
              enable_compression)) \<and>
         context_compression (optimization_results
           (fst (optimize_request rt clk s n prompt context domain enable_streaming
              enable_compression))) = None"
proof (cases "optimize_request_try rt clk s (n + 1) (clk n) prompt context domain enable_compression")
  case (fields r s1 n1)
  from try_without_compression(1) [OF assms, of rt clk s "n + 1" "clk n" prompt domain] fields
  have cc: "context_compressor s1 = context_compressor s" by simp
  show ?thesis
  proof (cases r)
    case (Inl ec)
    with fields cc show ?thesis
      by (simp add: optimize_request_def Let_def no_compression_tag_def split: prod.splits)
  next
    case (Inr res)
    with fields have "fst (optimize_request_try rt clk s (n + 1) (clk n) prompt context domain
        enable_compression) = Inr res" by simp
    from try_without_compression(2) [OF assms this] fields Inr cc show ?thesis
      by (simp add: optimize_request_def Let_def)
  qed
qed

theorem no_compression_for_short_context_witness:
  "(length (latin ''deployment log'') \<le> 5000 \<or> \<not> True) \<and>
   context_compressor (fst (snd (optimize_request sample_runtime sample_clock optimizer_init 0
       (latin ''analyze'') (latin ''deployment log'') (latin ''devops'') True True))) =
     context_compressor optimizer_init \<and>
   no_compression_tag (fst (optimize_request sample_runtime sample_clock optimizer_init 0
       (latin ''analyze'') (latin ''deployment log'') (latin ''devops'') True True))"
proof -
  have h: "length (latin ''deployment log'') \<le> 5000 \<or> \<not> True" by (simp add: latin_def)
  from no_compression_for_short_context [OF h, of sample_runtime sample_clock optimizer_init 0
      "latin ''analyze''" "latin ''devops''" True] h
  show ?thesis by blast
qed

lemma deque_append_last:
  assumes "0 < n"
  shows "deque_append n xs x \<noteq> [] \<and> last (deque_append n xs x) = x"
proof -
  from assms have "length (xs @ [x]) - n < length (xs @ [x])" by simp
  then show ?thesis
    unfolding deque_append_def Let_def by (simp add: last_drop)
qed

lemma record_metric_last:
  "metrics_history (record_metric mon metric) \<noteq> [] \<and>
   last (metrics_history (record_metric mon metric)) = metric"
  using deque_append_last [of 10000 "metrics_history mon" metric]
  by (simp add: record_metric_def)

lemma sample_runtime_ok: "runtime_ok sample_runtime"
  by (simp add: runtime_ok_def sample_runtime_def)

lemma fresh_prompt_result:
  assumes "prompt \<noteq> []" and "encodable prompt" and "encodable domain"
  shows "\<exists>pm po1 n1. optimize_prompt rt clk prompt_optimizer_init n prompt domain =
           (Inr (fst (rewrite_prompt rt prompt domain), pm), po1, n1)"
  using assms
  by (simp add: optimize_prompt_def md5_hex_def encodable_append encodable_latin
      prompt_optimizer_init_def lru_init_def get_def put_def
      put_prepare_def has_key_def Let_def)

lemma key_derivation_raises:
  assumes "optimize_prompt rt clk (prompt_optimizer s) n prompt domain =
             (Inr (optimized, pm), po1, n1)"
    and "\<not> (enable_compression \<and> 5000 < length context)"
    and "\<not> encodable context"
  shows "fst (optimize_request_try rt clk s n st prompt context domain enable_compression) =
           Inl (UnicodeEncodeError (optimized @ latin '':'' @ context @ latin '':'' @ domain),
                context)"
  using assms
  by (auto simp: optimize_request_try_def Let_def lookup_and_finish_def md5_hex_def
      encodable_append)

text \<open>
  Claim C1: in every reachable state of the optimizer, whenever the \<open>try\<close> block of
  \<open>optimize_request\<close> raises, whatever the exception \<open>e\<close> and the stage (the prompt
  optimizer dividing by the length of an empty prompt, \<open>.encode()\<close> rejecting a lone
  surrogate in the key derivation of the prompt optimizer, of the compressor or of the
  pipeline, or a cache operation), the call still returns a result (the function is total:
  nothing propagates), with \<open>cache_hit = False\<close>, the \<open>error\<close> key set to \<open>str(e)\<close>, and an
  \<open>optimized_request\<close> holding the caller's prompt and context unchanged; the metric
  recorded last is the failure, with the same text. The hypothesis on the \<open>try\<close> block
  leaves open which value the local variable \<open>context\<close> has when the exception is raised;
  that it is the caller's context is part of what is proved.
\<close>

theorem failure_returns_original_request:
  assumes "runtime_ok rt" and "reachable rt s"
    and "fst (optimize_request_try rt clk s (n + 1) (clk n) prompt context domain
           enable_compression) = Inl (e, ctx)"
  shows "cache_hit (fst (optimize_request rt clk s n prompt context domain enable_streaming
           enable_compression)) = False \<and>
         error (optimization_results (fst (optimize_request rt clk s n prompt context domain
           enable_streaming enable_compression))) = Some (exception_str rt e) \<and>
         optimized_request (fst (optimize_request rt clk s n prompt context domain
           enable_streaming enable_compression)) =
           Some \<lparr>req_prompt = prompt, req_context = context, req_domain = domain,
                 req_cache_key = None\<rparr> \<and>
         response (fst (optimize_request rt clk s n prompt context domain enable_streaming
           enable_compression)) = None \<and>
         success (last (metrics_history (performance_monitor (fst (snd (optimize_request rt clk s n
           prompt context domain enable_streaming enable_compression)))))) = False \<and>
         error_message (last (metrics_history (performance_monitor (fst (snd (optimize_request
           rt clk s n prompt context domain enable_streaming enable_compression)))))) =
           Some (exception_str rt e)"
proof -
  from try_raise_keeps_context [OF assms(1) reachable_inv [OF assms(1,2)] assms(3)]
  have "ctx = context" .
  with assms(3) show ?thesis
    by (cases "optimize_request_try rt clk s (n + 1) (clk n) prompt context domain enable_compression")
       (simp add: optimize_request_def Let_def record_metric_last request_metric_def)
qed

text \<open>An instance in which the prompt optimizer has returned a prompt that differs from the
  caller's and the key derivation of line 637 then raises on a context holding the lone
  surrogate U+D800 (code point 55296 = 256 + 55040): the result carries the caller's
  prompt, not the optimized one.\<close>

theorem failure_returns_original_request_witness:
  "runtime_ok sample_runtime \<and> reachable sample_runtime optimizer_init \<and>
   fst (optimize_request_try sample_runtime sample_clock optimizer_init (0 + 1) (sample_clock 0)
          (latin ''Could you please analyze my pipeline'') [Wide 55040] (latin ''devops'') True) =
     Inl (UnicodeEncodeError
            (fst (rewrite_prompt sample_runtime (latin ''Could you please analyze my pipeline'')
                    (latin ''devops'')) @ latin '':'' @ [Wide 55040] @ latin '':'' @ latin ''devops''),
          [Wide 55040]) \<and>
   fst (rewrite_prompt sample_runtime (latin ''Could you please analyze my pipeline'')
          (latin ''devops'')) \<noteq> latin ''Could you please analyze my pipeline'' \<and>
   cache_hit (fst (optimize_request sample_runtime sample_clock optimizer_init 0
          (latin ''Could you please analyze my pipeline'') [Wide 55040] (latin ''devops'')
          True True)) = False \<and>
   error (optimization_results (fst (optimize_request sample_runtime sample_clock optimizer_init 0
          (latin ''Could you please analyze my pipeline'') [Wide 55040] (latin ''devops'')
          True True))) = Some ''error'' \<and>
   optimized_request (fst (optimize_request sample_runtime sample_clock optimizer_init 0
          (latin ''Could you please analyze my pipeline'') [Wide 55040] (latin ''devops'')
          True True)) =
     Some \<lparr>req_prompt = latin ''Could you please analyze my pipeline'',
           req_context = [Wide 55040], req_domain = latin ''devops'', req_cache_key = None\<rparr>"
proof -
  let ?p = "latin ''Could you please analyze my pipeline''"
  let ?d = "latin ''devops''"
  let ?e = "UnicodeEncodeError
              (fst (rewrite_prompt sample_runtime ?p ?d) @ latin '':'' @ [Wide 55040] @ latin '':'' @ ?d)"
  have ok: "runtime_ok sample_runtime" by (rule sample_runtime_ok)
  have re: "reachable sample_runtime optimizer_init" by (rule reachable.constructed)
  have ne: "\<not> encodable [Wide 55040]" by (simp add: encodable_def)
  obtain pm po1 n1 where op: "optimize_prompt sample_runtime sample_clock
      (prompt_optimizer optimizer_init) (0 + 1) ?p ?d =
        (Inr (fst (rewrite_prompt sample_runtime ?p ?d), pm), po1, n1)"
    using fresh_prompt_result [of ?p ?d sample_runtime sample_clock "0 + 1"]
    by (auto simp: optimizer_init_def encodable_latin latin_not_Nil)
  have h: "fst (optimize_request_try sample_runtime sample_clock optimizer_init (0 + 1)
             (sample_clock 0) ?p [Wide 55040] ?d True) = Inl (?e, [Wide 55040])"
    by (rule key_derivation_raises [OF op _ ne]) simp
  have changed: "fst (rewrite_prompt sample_runtime ?p ?d) \<noteq> ?p"
    unfolding rewrite_could_you_please by (simp add: latin_def)
  from failure_returns_original_request [OF ok re h, of True] ok re h changed
  show ?thesis by (simp add: sample_runtime_def)
qed

end
